theory Spec2Isabelle
  imports Complex_Main
begin

section \<open>Data model\<close>

text \<open>
  An event log is a pandas DataFrame with the columns \<open>event_id\<close>, \<open>t\<close>, \<open>src_id\<close> and
  \<open>sink_id\<close>; it is modelled as the list of its rows, in row order. Floating-point numbers
  are idealised as reals. A value that is not a finite number (NaN, or an infinity) is
  \<open>None\<close> in a \<open>real option\<close>: every sum and product with such an operand is again not
  finite.
\<close>

record event =
  event_id :: int
  t :: real
  src_id :: int
  sink_id :: int

type_synonym dataframe = "event list"

datatype error =
    AssertionError string
  | KeyError
  | AttributeError
  | TypeError
  | ValueError

section \<open>Utilities\<close>

definition mb :: "'a option \<Rightarrow> 'a option \<Rightarrow> 'a option" where
  "mb val dflt = (case val of Some v \<Rightarrow> Some v | None \<Rightarrow> dflt)"

fun np_diff :: "'a::minus list \<Rightarrow> 'a list" where
  "np_diff (x # y # xs) = (y - x) # np_diff (y # xs)"
| "np_diff xs = []"

text \<open>
  The arrays \<open>is_sorted\<close> receives: the timestamps of a log are a \<open>float64\<close> array, a list
  of follower ids becomes an \<open>int64\<close> array. On an \<open>int64\<close> array \<open>np.diff\<close> subtracts in
  64-bit two's complement: \<open>wrap64\<close> is the value of a difference that has wrapped around.
  Ids are 64-bit integers, from \<open>-2\<^sup>6\<^sup>3\<close> to \<open>2\<^sup>6\<^sup>3 - 1\<close>.
\<close>

datatype ndarray = Float64 "real list" | Int64 "int list"

definition wrap64 :: "int \<Rightarrow> int" where
  "wrap64 z = (z + 2 ^ 63) mod 2 ^ 64 - 2 ^ 63"

definition is_sorted :: "ndarray \<Rightarrow> bool \<Rightarrow> bool" where
  "is_sorted x ascending =
     (case x of
        Float64 xs \<Rightarrow>
          list_all (\<lambda>d. d * (if ascending then 1 else - 1) \<ge> 0) (np_diff xs)
      | Int64 xs \<Rightarrow>
          list_all (\<lambda>d. real_of_int d * (if ascending then 1 else - 1) \<ge> 0)
            (map wrap64 (np_diff xs)))"

section \<open>Rank Tracker\<close>

text \<open>\<open>np.maximum.accumulate\<close>: the running maximum of an array.\<close>

fun accumulate_from :: "int \<Rightarrow> int list \<Rightarrow> int list" where
  "accumulate_from m [] = []"
| "accumulate_from m (x # xs) = max m x # accumulate_from (max m x) xs"

definition maximum_accumulate :: "int list \<Rightarrow> int list" where
  "maximum_accumulate xs = (case xs of [] \<Rightarrow> [] | x # ys \<Rightarrow> x # accumulate_from x ys)"

text \<open>
  \<open>steps_to\<close>, the closure of \<open>rank_of_src_in_df\<close>: \<open>x\<close> is the \<open>src_id\<close> column of one
  follower's stream, and \<open>marks\<close> is \<open>np.where(x == src_id, range(1, len(x) + 1), 0)\<close>.
  A \<open>src_id\<close> of \<open>None\<close> compares unequal to every entry.
\<close>

definition marks :: "int option \<Rightarrow> int list \<Rightarrow> int list" where
  "marks src x = map2 (\<lambda>v j. if Some v = src then j else 0) x [1..int (length x)]"

definition steps_to :: "int option \<Rightarrow> int list \<Rightarrow> int list" where
  "steps_to src x = map2 (-) [1..int (length x)] (maximum_accumulate (marks src x))"

text \<open>
  \<open>df.groupby('sink_id').src_id.transform(f)\<close>: \<open>f\<close> is applied to the \<open>src_id\<close> column of
  each follower's stream (the rows of that follower, in row order), and every row receives
  the entry of its own position in its stream.
\<close>

definition stream :: "dataframe \<Rightarrow> int \<Rightarrow> dataframe" where
  "stream df g = filter (\<lambda>e. sink_id e = g) df"

definition groupby_transform :: "(int list \<Rightarrow> int list) \<Rightarrow> dataframe \<Rightarrow> int list" where
  "groupby_transform f df =
     map (\<lambda>i. f (map src_id (stream df (sink_id (df ! i))))
                 ! length (stream (take i df) (sink_id (df ! i))))
       [0..<length df]"

definition rank_column :: "dataframe \<Rightarrow> int option \<Rightarrow> real list" where
  "rank_column df src = map of_int (groupby_transform (steps_to src) df)"

text \<open>
  \<open>pivot_table(index=..., columns='sink_id', values='rank')\<close>: one row per distinct index
  value and one column per distinct follower, both ascending; a cell is the mean of the
  ranks of the rows with that index value and follower, and NaN when there is none.
\<close>

record pivot =
  index :: "real list"
  columns :: "int list"
  vals :: "real option list list"

definition mean :: "real list \<Rightarrow> real option" where
  "mean xs = (if xs = [] then None else Some (sum_list xs / real (length xs)))"

definition pivot_table :: "(event \<Rightarrow> real) \<Rightarrow> (event \<times> real) list \<Rightarrow> pivot" where
  "pivot_table key rows =
     (let idx = sort (remdups (map (key \<circ> fst) rows));
          cols = sort (remdups (map (sink_id \<circ> fst) rows))
      in \<lparr>index = idx, columns = cols,
          vals = map (\<lambda>i. map (\<lambda>c. mean (map snd
                    (filter (\<lambda>(e, r). key e = i \<and> sink_id e = c) rows))) cols) idx\<rparr>)"

text \<open>\<open>fillna(method='ffill')\<close>: a NaN cell takes the value of the cell above it.\<close>

fun ffill_rows :: "real option list \<Rightarrow> real option list list \<Rightarrow> real option list list" where
  "ffill_rows prev [] = []"
| "ffill_rows prev (row # rows) =
     (let row' = map2 (\<lambda>p v. case v of None \<Rightarrow> p | Some x \<Rightarrow> Some x) prev row
      in row' # ffill_rows row' rows)"

definition ffill :: "pivot \<Rightarrow> pivot" where
  "ffill p = p\<lparr>vals := ffill_rows (replicate (length (columns p)) None) (vals p)\<rparr>"

definition rank_of_src_in_df :: "dataframe \<Rightarrow> int option \<Rightarrow> bool \<Rightarrow> bool \<Rightarrow> error + pivot" where
  "rank_of_src_in_df df src fill with_time =
     (if \<not> is_sorted (Float64 (map t df)) True then Inl (AssertionError ''Array not sorted by time.'')
      else
        let pivot_ranks = pivot_table (if with_time then t else of_int \<circ> event_id)
                            (zip df (rank_column df src))
        in Inr (if fill then ffill pivot_ranks else pivot_ranks))"

text \<open>
  \<open>r_t[follower_ids].values\<close>: the columns with the given labels, in the given order, as
  a matrix with one row per index value; a label that is no column raises \<open>KeyError\<close>.
\<close>

definition label_pos :: "int list \<Rightarrow> int \<Rightarrow> nat" where
  "label_pos cols c = length (takeWhile (\<lambda>x. x \<noteq> c) cols)"

definition select_columns :: "pivot \<Rightarrow> int list \<Rightarrow> error + real option list list" where
  "select_columns p fids =
     (if list_all (\<lambda>c. c \<in> set (columns p)) fids
      then Inr (map (\<lambda>row. map (\<lambda>c. row ! label_pos (columns p) c) fids) (vals p))
      else Inl KeyError)"

subsection \<open>Reading the rank column and the trajectory\<close>

text \<open>The \<open>rank\<close> column restricted to the rows of follower \<open>g\<close>, in row order.\<close>

definition stream_ranks :: "dataframe \<Rightarrow> int option \<Rightarrow> int \<Rightarrow> real list" where
  "stream_ranks df src g =
     map snd (filter (\<lambda>(e, r). sink_id e = g) (zip df (rank_column df src)))"

text \<open>
  The 1-based index of the most recent entry equal to \<open>a\<close> among the entries at the
  0-based positions \<open>0..k\<close> of \<open>x\<close>, and 0 when there is none.
\<close>

definition most_recent_post :: "int \<Rightarrow> int list \<Rightarrow> nat \<Rightarrow> int" where
  "most_recent_post a x k =
     (case filter (\<lambda>j. x ! j = a) (rev [0..<Suc k]) of [] \<Rightarrow> 0 | j # js \<Rightarrow> int j + 1)"

text \<open>The cells of follower \<open>c\<close> in the rows of a trajectory whose index values are \<open>grid\<close>.\<close>

definition at_times :: "pivot \<Rightarrow> int \<Rightarrow> real list \<Rightarrow> real option list" where
  "at_times p c grid =
     map (\<lambda>tm. vals p ! length (takeWhile (\<lambda>i. i \<noteq> tm) (index p)) ! label_pos (columns p) c) grid"

text \<open>
  The event log of the two-follower scenario: source 0 posts at \<open>t = 0\<close> and \<open>t = 5\<close> to
  its followers 1 and 2; the competitor, source 1, posts to follower 1 at \<open>t = 1, 2, 3\<close> and
  to follower 2 at \<open>t = 4\<close>.
\<close>

definition scenario :: dataframe where
  "scenario =
     [\<lparr>event_id = 0, t = 0, src_id = 0, sink_id = 1\<rparr>,
      \<lparr>event_id = 0, t = 0, src_id = 0, sink_id = 2\<rparr>,
      \<lparr>event_id = 1, t = 1, src_id = 1, sink_id = 1\<rparr>,
      \<lparr>event_id = 2, t = 2, src_id = 1, sink_id = 1\<rparr>,
      \<lparr>event_id = 3, t = 3, src_id = 1, sink_id = 1\<rparr>,
      \<lparr>event_id = 4, t = 4, src_id = 1, sink_id = 2\<rparr>,
      \<lparr>event_id = 5, t = 5, src_id = 0, sink_id = 1\<rparr>,
      \<lparr>event_id = 5, t = 5, src_id = 0, sink_id = 2\<rparr>]"

definition scenario_trajectory :: pivot where
  "scenario_trajectory =
     \<lparr>index = [0, 1, 2, 3, 4, 5], columns = [1, 2],
      vals = [[Some 0, Some 0], [Some 1, Some 0], [Some 2, Some 0],
              [Some 3, Some 0], [Some 3, Some 1], [Some 0, Some 0]]\<rparr>"

text \<open>A log with simultaneous events, in which the competitor posts first.\<close>

definition simultaneous_log :: dataframe where
  "simultaneous_log =
     [\<lparr>event_id = 0, t = 1, src_id = 1, sink_id = 1\<rparr>,
      \<lparr>event_id = 1, t = 1, src_id = 0, sink_id = 1\<rparr>,
      \<lparr>event_id = 2, t = 2, src_id = 1, sink_id = 1\<rparr>,
      \<lparr>event_id = 3, t = 2, src_id = 1, sink_id = 1\<rparr>]"

text \<open>The cell of a trajectory in the row with the index value \<open>tm\<close> and the column \<open>c\<close>.\<close>

definition cell_at :: "pivot \<Rightarrow> real \<Rightarrow> int \<Rightarrow> real option" where
  "cell_at p tm c =
     vals p ! length (takeWhile (\<lambda>i. i \<noteq> tm) (index p)) ! label_pos (columns p) c"

text \<open>
  A log without simultaneous events in which the competitor posts to follower 1 before
  source 0 does.
\<close>

definition competitor_first_log :: dataframe where
  "competitor_first_log =
     [\<lparr>event_id = 0, t = 0, src_id = 1, sink_id = 1\<rparr>,
      \<lparr>event_id = 1, t = 1, src_id = 0, sink_id = 1\<rparr>,
      \<lparr>event_id = 2, t = 2, src_id = 1, sink_id = 1\<rparr>,
      \<lparr>event_id = 2, t = 2, src_id = 1, sink_id = 2\<rparr>,
      \<lparr>event_id = 3, t = 3, src_id = 1, sink_id = 1\<rparr>]"

section \<open>Oracle Scheduler\<close>

text \<open>
  The configuration of a run, external to this module: the fields this module reads.
  \<open>sim_opts.update({'s': v})\<close> is the record update \<open>opts\<lparr>opt_s := v\<rparr>\<close>.
\<close>

record sim_opts =
  opt_src_id :: int
  opt_end_time :: real
  opt_q_vec :: "real list"
  opt_s :: real
  opt_sink_ids :: "int list"

text \<open>
  The table returned by \<open>oracle_ranking\<close>; \<open>at_col\<close> and \<open>t_col\<close> are its columns \<open>at\<close>
  and \<open>t\<close>, which hold the same values.
\<close>

record oracle_df =
  ranks :: "nat list"
  events :: "nat list"
  at_col :: "real list"
  t_col :: "real list"
  t_delta :: "real list"

text \<open>\<open>oracle_ranking\<close> returns either the empty list or a table with its cost.\<close>

datatype oracle_out = Empty | Oracle oracle_df real

text \<open>
  \<open>df.groupby('event_id').t.mean()\<close>: one entry per distinct \<open>event_id\<close>, ascending by
  \<open>event_id\<close>, the mean of the times of that event's rows.
\<close>

definition event_times :: "dataframe \<Rightarrow> real list" where
  "event_times df =
     map (\<lambda>i. sum_list (map t (filter (\<lambda>e. event_id e = i) df))
                 / real (length (filter (\<lambda>e. event_id e = i) df)))
       (sort (remdups (map event_id df)))"

definition oracle_w :: "real list \<Rightarrow> real \<Rightarrow> real list" where
  "oracle_w et end_t = np_diff ([0, 0] @ et @ [end_t])"

text \<open>
  The table \<open>J\<close>, \<open>n + 1\<close> rows by \<open>n + 2\<close> columns, as the list of its rows:
  \<open>J ! r ! k\<close> is \<open>J[r, k]\<close>. It starts as zeros with the last column set to
  \<open>r\<^sup>2 / 2\<close>.
\<close>

type_synonym table = "real list list"

definition J_init :: "nat \<Rightarrow> table" where
  "J_init n = map (\<lambda>r. (replicate (n + 2) 0)[n + 1 := (real r)\<^sup>2 / 2]) [0..<n + 1]"

definition set_cell :: "table \<Rightarrow> nat \<Rightarrow> nat \<Rightarrow> real \<Rightarrow> table" where
  "set_cell J r k v = J[r := (J ! r)[k := v]]"

text \<open>The value the backward pass writes to \<open>J[r, k]\<close>.\<close>

definition bellman :: "real \<Rightarrow> real \<Rightarrow> real list \<Rightarrow> table \<Rightarrow> nat \<Rightarrow> nat \<Rightarrow> real" where
  "bellman q s w J r k =
     min (0.5 * s + J ! 0 ! (k + 1))
         (0.5 * q * w ! (k + 1) * (real (r + 1))\<^sup>2 + J ! (r + 1) ! (k + 1))"

text \<open>The inner loop, \<open>for r in range(min(k + 1, n))\<close>, over the list of its values of \<open>r\<close>.\<close>

fun fill_column :: "real \<Rightarrow> real \<Rightarrow> real list \<Rightarrow> nat \<Rightarrow> nat list \<Rightarrow> table \<Rightarrow> table" where
  "fill_column q s w k [] J = J"
| "fill_column q s w k (r # rs) J =
     fill_column q s w k rs (set_cell J r k (bellman q s w J r k))"

text \<open>The outer loop, \<open>for k in range(n, -1, -1)\<close>, from its current value of \<open>k\<close> on.\<close>

fun backward :: "real \<Rightarrow> real \<Rightarrow> real list \<Rightarrow> nat \<Rightarrow> nat \<Rightarrow> table \<Rightarrow> table" where
  "backward q s w n 0 J = fill_column q s w 0 [0..<min (0 + 1) n] J"
| "backward q s w n (Suc k) J =
     backward q s w n k (fill_column q s w (Suc k) [0..<min (Suc k + 1) n] J)"

definition oracle_J :: "real \<Rightarrow> real \<Rightarrow> real list \<Rightarrow> nat \<Rightarrow> table" where
  "oracle_J q s w n = backward q s w n n (J_init n)"

text \<open>
  The forward pass: the state is the pair of the arrays \<open>oracle_ranks\<close> and \<open>u_star\<close>;
  \<open>post_cost\<close> and \<open>wait_cost\<close> are \<open>lhs\<close> and \<open>rhs\<close> of the loop body.
\<close>

definition post_cost :: "real \<Rightarrow> table \<Rightarrow> nat \<Rightarrow> real" where
  "post_cost s J k = 0.5 * s + J ! 0 ! (k + 1)"

definition wait_cost :: "real \<Rightarrow> real list \<Rightarrow> table \<Rightarrow> nat \<Rightarrow> nat \<Rightarrow> real" where
  "wait_cost q w J r k = 0.5 * q * w ! (k + 1) * (real (r + 1))\<^sup>2 + J ! (r + 1) ! (k + 1)"

definition forward_step ::
  "real \<Rightarrow> real \<Rightarrow> real list \<Rightarrow> table \<Rightarrow> nat list \<times> nat list \<Rightarrow> nat \<Rightarrow> nat list \<times> nat list" where
  "forward_step q s w J st k =
     (let oracle_ranks = fst st; u_star = snd st;
          lhs = post_cost s J k;
          rhs = wait_cost q w J (oracle_ranks ! k) k
      in if lhs < rhs
         then (oracle_ranks[k + 1 := 0], u_star[k := 1])
         else (oracle_ranks[k + 1 := oracle_ranks ! k + 1], u_star[k := 0]))"

definition forward :: "real \<Rightarrow> real \<Rightarrow> real list \<Rightarrow> table \<Rightarrow> nat \<Rightarrow> nat list \<times> nat list" where
  "forward q s w J n =
     foldl (forward_step q s w J) (replicate (n + 1) 0, replicate (n + 1) 0) [0..<n]"

text \<open>
  The computation after the assertions, for the event times \<open>et\<close> and the single weight
  \<open>q\<close>.
\<close>

definition solve_oracle :: "real list \<Rightarrow> real \<Rightarrow> real \<Rightarrow> real \<Rightarrow> oracle_out" where
  "solve_oracle et end_t q s =
     (let n = length et
      in if n > 1000000 then Empty
         else
           let w = oracle_w et end_t;
               J = oracle_J q s w n;
               st = forward q s w J n
           in Oracle \<lparr>ranks = fst st, events = snd st, at_col = 0 # et, t_col = 0 # et,
                      t_delta = tl w\<rparr> (J ! 0 ! 0))"

text \<open>
  \<open>oracle_ranking\<close>. With explicit \<open>follower_ids\<close> the source rebinds \<open>df\<close> to
  \<open>sorted(df[...])\<close>, the sorted list of the column labels, so that \<open>df.t\<close> raises
  \<open>AttributeError\<close> once the assertion on the number of followers has passed. The weight
  vector is used as a scalar; with a vector of one entry the arithmetic is that of its
  entry, and a vector of another length is taken to raise \<open>ValueError\<close> in \<open>min\<close>.
\<close>

definition oracle_ranking ::
  "dataframe \<Rightarrow> sim_opts \<Rightarrow> int list option \<Rightarrow> int list option \<Rightarrow> error + oracle_out" where
  "oracle_ranking df opts omit_src_ids follower_ids =
     (let df1 = (case omit_src_ids of None \<Rightarrow> df
                 | Some om \<Rightarrow> filter (\<lambda>e. src_id e \<notin> set om) df)
      in case follower_ids of
           Some fids \<Rightarrow>
             if length fids \<noteq> 1
             then Inl (AssertionError ''Oracle has been implemented only for 1 follower.'')
             else Inl AttributeError
         | None \<Rightarrow>
             let fids = sort (remdups (map sink_id df1))
             in if length fids \<noteq> 1
                then Inl (AssertionError ''Oracle has been implemented only for 1 follower.'')
                else if \<not> is_sorted (Float64 (map t df1)) True
                then Inl (AssertionError ''Dataframe is not sorted by time.'')
                else if length (event_times df1) > 1000000 then Inr Empty
                else case opt_q_vec opts of
                       [q] \<Rightarrow> Inr (solve_oracle (event_times df1) (opt_end_time opts) q (opt_s opts))
                     | _ \<Rightarrow> Inl ValueError)"

subsection \<open>Exhaustive search over posting patterns\<close>

text \<open>
  The cost of a pattern of decisions, one per entry of the list, taken from the stage \<open>k\<close>
  at rank \<open>r\<close>: a post costs \<open>s / 2\<close> and resets the rank; waiting costs the quadratic
  penalty \<open>(q / 2) \<sqdot> w[k + 1] \<sqdot> (r + 1)\<^sup>2\<close> of the interval and increments the rank;
  at the end the terminal penalty \<open>r\<^sup>2 / 2\<close> is due.
\<close>

fun pattern_cost :: "real \<Rightarrow> real \<Rightarrow> real list \<Rightarrow> nat \<Rightarrow> nat \<Rightarrow> bool list \<Rightarrow> real" where
  "pattern_cost q s w r k [] = (real r)\<^sup>2 / 2"
| "pattern_cost q s w r k (u # us) =
     (if u then s / 2 + pattern_cost q s w 0 (k + 1) us
      else q / 2 * w ! (k + 1) * (real (r + 1))\<^sup>2 + pattern_cost q s w (r + 1) (k + 1) us)"

fun patterns :: "nat \<Rightarrow> bool list list" where
  "patterns 0 = [[]]"
| "patterns (Suc m) = map ((#) True) (patterns m) @ map ((#) False) (patterns m)"

definition minimum :: "real list \<Rightarrow> real" where
  "minimum xs = fold min (tl xs) (hd xs)"

definition brute_force :: "real \<Rightarrow> real \<Rightarrow> real list \<Rightarrow> nat \<Rightarrow> real" where
  "brute_force q s w m = minimum (map (pattern_cost q s w 0 0) (patterns m))"

text \<open>An event log with one competing event at \<open>t = 1\<close>, and configurations for it.\<close>

definition one_event_log :: dataframe where
  "one_event_log = [\<lparr>event_id = 0, t = 1, src_id = 1, sink_id = 0\<rparr>]"

definition one_event_opts :: "real \<Rightarrow> sim_opts" where
  "one_event_opts s =
     \<lparr>opt_src_id = 0, opt_end_time = 2, opt_q_vec = [1], opt_s = s, opt_sink_ids = [0]\<rparr>"

text \<open>A table of \<open>n + 1\<close> rows and \<open>n + 2\<close> columns.\<close>

definition shaped :: "nat \<Rightarrow> table \<Rightarrow> bool" where
  "shaped n J = (length J = n + 1 \<and> list_all (\<lambda>row. length row = n + 2) J)"

text \<open>
  The event log after the omitted sources are removed, and the follower list whose length
  \<open>oracle_ranking\<close> asserts to be 1.
\<close>

definition omit_sources :: "dataframe \<Rightarrow> int list option \<Rightarrow> dataframe" where
  "omit_sources df omit_src_ids =
     (case omit_src_ids of None \<Rightarrow> df | Some om \<Rightarrow> filter (\<lambda>e. src_id e \<notin> set om) df)"

definition oracle_followers :: "dataframe \<Rightarrow> int list option \<Rightarrow> int list option \<Rightarrow> int list" where
  "oracle_followers df omit_src_ids follower_ids =
     (case follower_ids of
        Some fids \<Rightarrow> fids
      | None \<Rightarrow> sort (remdups (map sink_id (omit_sources df omit_src_ids))))"

section \<open>Metric Aggregator: the utility integral\<close>

text \<open>
  Arithmetic on numbers that may be not finite (\<open>None\<close>). A division by zero gives an
  infinity or NaN, the square root of a negative number NaN.
\<close>

definition fmul :: "real option \<Rightarrow> real option \<Rightarrow> real option" where
  "fmul a b = (case (a, b) of (Some x, Some y) \<Rightarrow> Some (x * y) | _ \<Rightarrow> None)"

definition fadd :: "real option \<Rightarrow> real option \<Rightarrow> real option" where
  "fadd a b = (case (a, b) of (Some x, Some y) \<Rightarrow> Some (x + y) | _ \<Rightarrow> None)"

definition fsum :: "real option list \<Rightarrow> real option" where
  "fsum xs = foldr fadd xs (Some 0)"

definition np_divide :: "real \<Rightarrow> real \<Rightarrow> real option" where
  "np_divide a b = (if b = 0 then None else Some (a / b))"

definition np_sqrt :: "real option \<Rightarrow> real option" where
  "np_sqrt a = (case a of None \<Rightarrow> None | Some x \<Rightarrow> if x < 0 then None else Some (sqrt x))"

definition dot :: "real option list \<Rightarrow> real option list \<Rightarrow> real option" where
  "dot row v = fsum (map2 fmul row v)"

text \<open>The followers \<open>u_int_opt\<close> falls back to: \<open>sorted(df.sink_id[df.src_id == src_id].unique())\<close>.\<close>

definition default_followers :: "dataframe \<Rightarrow> int option \<Rightarrow> int list" where
  "default_followers df src =
     sort (remdups (map sink_id (filter (\<lambda>e. Some (src_id e) = src) df)))"

text \<open>
  \<open>u_int_opt\<close>. The arguments that default to \<open>None\<close> are options; a \<open>None\<close> that reaches
  the arithmetic raises \<open>TypeError\<close> (an \<open>end_time\<close> of \<open>None\<close> does so in \<open>np.diff\<close>, unless
  the trajectory has no row). The matrix product raises \<open>ValueError\<close> when \<open>q_vec\<close> has not
  one entry per selected column.
\<close>

definition u_int_opt ::
  "dataframe \<Rightarrow> int option \<Rightarrow> real option \<Rightarrow> real list option \<Rightarrow> real option \<Rightarrow>
     int list option \<Rightarrow> sim_opts option \<Rightarrow> error + real option" where
  "u_int_opt df src end_t q_vec s follower_ids opts =
     (let src' = (case opts of None \<Rightarrow> src | Some so \<Rightarrow> mb src (Some (opt_src_id so)));
          end_t' = (case opts of None \<Rightarrow> end_t | Some so \<Rightarrow> mb end_t (Some (opt_end_time so)));
          q_vec' = (case opts of None \<Rightarrow> q_vec | Some so \<Rightarrow> mb q_vec (Some (opt_q_vec so)));
          s' = (case opts of None \<Rightarrow> s | Some so \<Rightarrow> mb s (Some (opt_s so)));
          follower_ids' = (case opts of None \<Rightarrow> follower_ids
                           | Some so \<Rightarrow> mb follower_ids (Some (opt_sink_ids so)))
      in case (case follower_ids' of
                 None \<Rightarrow> Inr (default_followers df src')
               | Some fids \<Rightarrow> if is_sorted (Int64 fids) True then Inr fids
                              else Inl (AssertionError [])) of
           Inl e \<Rightarrow> Inl e
         | Inr fids \<Rightarrow>
            (case rank_of_src_in_df df src' True True of
               Inl e \<Rightarrow> Inl e
             | Inr r_t \<Rightarrow>
                (case select_columns r_t fids of
                   Inl e \<Rightarrow> Inl e
                 | Inr m \<Rightarrow>
                    (case (q_vec', s') of
                       (Some q, Some sv) \<Rightarrow>
                         if length q \<noteq> length fids then Inl ValueError
                         else
                           let u_values =
                                 map (\<lambda>row. dot row (map (\<lambda>qj. np_sqrt (np_divide qj sv)) q)) m
                           in (case end_t' of
                                 None \<Rightarrow> if index r_t = [] then Inr (Some 0) else Inl TypeError
                               | Some e \<Rightarrow>
                                   let u_dt = np_diff (index r_t @ [e])
                                   in Inr (fsum (map2 fmul u_values (map Some u_dt))))
                     | _ \<Rightarrow> Inl TypeError))))"

subsection \<open>The Riemann sum of the specification\<close>

text \<open>
  The sum over the rows \<open>i\<close> of the trajectory of the row restricted to the follower ids,
  dotted with \<open>sqrt(q / s)\<close>, times the time to the next row, or to \<open>end_t\<close> for the last
  row: first in the arithmetic above, then in the reals for a trajectory whose selected
  cells are all numbers.
\<close>

definition riemann_sum :: "pivot \<Rightarrow> int list \<Rightarrow> real list \<Rightarrow> real \<Rightarrow> real \<Rightarrow> real option" where
  "riemann_sum r_t fids q s end_t =
     fsum (map (\<lambda>i. fmul (dot (map (\<lambda>c. vals r_t ! i ! label_pos (columns r_t) c) fids)
                                (map (\<lambda>qj. np_sqrt (np_divide qj s)) q))
                          (Some ((index r_t @ [end_t]) ! Suc i - index r_t ! i)))
            [0..<length (index r_t)])"

definition riemann_sum_real :: "pivot \<Rightarrow> int list \<Rightarrow> real list \<Rightarrow> real \<Rightarrow> real \<Rightarrow> real" where
  "riemann_sum_real r_t fids q s end_t =
     sum_list (map (\<lambda>i. sum_list (map (\<lambda>j. the (vals r_t ! i ! label_pos (columns r_t) (fids ! j))
                                             * sqrt (q ! j / s))
                                     [0..<length fids])
                         * ((index r_t @ [end_t]) ! Suc i - index r_t ! i))
                 [0..<length (index r_t)])"

text \<open>A log in which follower 2 only ever receives posts of the competitor.\<close>

definition competitor_only_log :: dataframe where
  "competitor_only_log =
     [\<lparr>event_id = 0, t = 0, src_id = 0, sink_id = 1\<rparr>,
      \<lparr>event_id = 1, t = 1, src_id = 1, sink_id = 1\<rparr>,
      \<lparr>event_id = 1, t = 1, src_id = 1, sink_id = 2\<rparr>,
      \<lparr>event_id = 2, t = 3, src_id = 1, sink_id = 1\<rparr>]"

text \<open>
  A log whose two followers have the ids \<open>2\<^sup>6\<^sup>3 - 1\<close> and \<open>-2\<^sup>6\<^sup>3\<close>: the competitor, source
  1, posts to both at \<open>t = 0\<close>.
\<close>

definition far_followers_log :: dataframe where
  "far_followers_log =
     [\<lparr>event_id = 0, t = 0, src_id = 1, sink_id = - (2 ^ 63)\<rparr>,
      \<lparr>event_id = 0, t = 0, src_id = 1, sink_id = 2 ^ 63 - 1\<rparr>]"

text \<open>The forward-filled trajectory over time that \<open>rank_of_src_in_df\<close> returns for a sorted log.\<close>

definition trajectory :: "dataframe \<Rightarrow> int option \<Rightarrow> pivot" where
  "trajectory df src = ffill (pivot_table t (zip df (rank_column df src)))"

section \<open>Calibration Loop: the event-count variant\<close>

text \<open>
  The simulation is external: \<open>wall opts\<close> is the event log that the wall manager of the
  configuration \<open>opts\<close> yields when it is run. Unpacking the empty result of
  \<open>oracle_ranking\<close> into table and cost raises \<open>ValueError\<close>.
\<close>

definition get_oracle_df :: "(sim_opts \<Rightarrow> dataframe) \<Rightarrow> sim_opts \<Rightarrow> error + oracle_df \<times> real" where
  "get_oracle_df wall opts =
     (case oracle_ranking (wall opts) opts None None of
        Inl e \<Rightarrow> Inl e
      | Inr Empty \<Rightarrow> Inl ValueError
      | Inr (Oracle odf cost) \<Rightarrow> Inr (odf, cost))"

definition oracle_num_events :: "(sim_opts \<Rightarrow> dataframe) \<Rightarrow> sim_opts \<Rightarrow> real \<Rightarrow> error + nat" where
  "oracle_num_events wall opts s =
     (case get_oracle_df wall (opts\<lparr>opt_s := s\<rparr>) of
        Inl e \<Rightarrow> Inl e
      | Inr (odf, cost) \<Rightarrow> Inr (sum_list (events odf)))"

text \<open>
  The two bracketing loops, from the current value of \<open>s_init\<close>; they return the bracket
  \<open>(s_lo, s_hi)\<close>. A loop that does not end has the value \<open>None\<close>.
\<close>

partial_function (option) bracket_up ::
  "(sim_opts \<Rightarrow> dataframe) \<Rightarrow> sim_opts \<Rightarrow> real \<Rightarrow> real \<Rightarrow> (error + real \<times> real) option" where
  "bracket_up wall opts target_events s_init =
     (case oracle_num_events wall opts (s_init * 2) of
        Inl e \<Rightarrow> Some (Inl e)
      | Inr num_events \<Rightarrow>
          if real num_events < target_events then Some (Inr (s_init, s_init * 2))
          else bracket_up wall opts target_events (s_init * 2))"

partial_function (option) bracket_down ::
  "(sim_opts \<Rightarrow> dataframe) \<Rightarrow> sim_opts \<Rightarrow> real \<Rightarrow> real \<Rightarrow> (error + real \<times> real) option" where
  "bracket_down wall opts target_events s_init =
     (case oracle_num_events wall opts (s_init / 2) of
        Inl e \<Rightarrow> Some (Inl e)
      | Inr num_events \<Rightarrow>
          if real num_events > target_events then Some (Inr (s_init / 2, s_init))
          else bracket_down wall opts target_events (s_init / 2))"

text \<open>
  The test that ends the bisection. The relative error is a division by
  \<open>target_events * 1.0\<close>; for a target of 0 it is an infinity or NaN, which is not below
  \<open>tol\<close>.
\<close>

definition stop_condition :: "nat \<Rightarrow> real \<Rightarrow> real \<Rightarrow> bool" where
  "stop_condition opt_events target_events tol =
     ((target_events \<noteq> 0 \<and>
         \<bar>real opt_events - target_events\<bar> / (target_events * 1) < tol) \<or>
      real opt_events = of_int \<lceil>target_events\<rceil> \<or>
      real opt_events = of_int \<lfloor>target_events\<rfloor>)"

text \<open>The dictionary that \<open>find_opt_oracle\<close> returns, with the keys \<open>s\<close>, \<open>cost\<close> and \<open>df\<close>.\<close>

record calibration =
  cal_s :: real
  cal_cost :: real
  cal_df :: oracle_df

text \<open>One iteration of the bisection loop: it returns, raises, or goes on with a new bracket.\<close>

datatype iteration = Return calibration | Raise error | Continue real real

definition bisect_step ::
  "(sim_opts \<Rightarrow> dataframe) \<Rightarrow> sim_opts \<Rightarrow> real \<Rightarrow> real \<Rightarrow> real \<Rightarrow> real \<Rightarrow> iteration" where
  "bisect_step wall opts target_events tol s_lo s_hi =
     (let s_try = (s_lo + s_hi) / 2
      in case get_oracle_df wall (opts\<lparr>opt_s := s_try\<rparr>) of
           Inl e \<Rightarrow> Raise e
         | Inr (odf, cost) \<Rightarrow>
             let opt_events = sum_list (events odf)
             in if stop_condition opt_events target_events tol
                then Return \<lparr>cal_s = s_try, cal_cost = cost, cal_df = odf\<rparr>
                else if real opt_events < target_events then Continue s_lo s_try
                else Continue s_try s_hi)"

partial_function (option) bisect ::
  "(sim_opts \<Rightarrow> dataframe) \<Rightarrow> sim_opts \<Rightarrow> real \<Rightarrow> real \<Rightarrow> real \<Rightarrow> real \<Rightarrow>
     (error + calibration) option" where
  "bisect wall opts target_events tol s_lo s_hi =
     (case bisect_step wall opts target_events tol s_lo s_hi of
        Return c \<Rightarrow> Some (Inr c)
      | Raise e \<Rightarrow> Some (Inl e)
      | Continue lo hi \<Rightarrow> bisect wall opts target_events tol lo hi)"

text \<open>
  \<open>find_opt_oracle\<close>, without the logging that \<open>verbose\<close> switches on: \<open>bracketing\<close> is the
  first phase, up to the bracket \<open>(s_lo, s_hi)\<close> with which the bisection loop starts.
\<close>

definition bracketing ::
  "(sim_opts \<Rightarrow> dataframe) \<Rightarrow> real \<Rightarrow> sim_opts \<Rightarrow> (error + real \<times> real) option" where
  "bracketing wall target_events opts =
     (case oracle_num_events wall opts 1 of
        Inl e \<Rightarrow> Some (Inl e)
      | Inr num_events \<Rightarrow>
          if real num_events > target_events then bracket_up wall opts target_events 1
          else if real num_events < target_events then bracket_down wall opts target_events 1
          else Some (Inr (1 / 2, 1 * 2)))"

definition find_opt_oracle ::
  "(sim_opts \<Rightarrow> dataframe) \<Rightarrow> real \<Rightarrow> sim_opts \<Rightarrow> real \<Rightarrow> (error + calibration) option" where
  "find_opt_oracle wall target_events opts tol =
     (case bracketing wall target_events opts of
        None \<Rightarrow> None
      | Some (Inl e) \<Rightarrow> Some (Inl e)
      | Some (Inr (s_lo, s_hi)) \<Rightarrow> bisect wall opts target_events tol s_lo s_hi)"

subsection \<open>The course of a bisection\<close>

text \<open>
  An iteration at the bracket \<open>b\<close> narrows it to \<open>b'\<close>: the oracle run at the midpoint does
  not meet the stopping condition, and \<open>b'\<close> has the midpoint for \<open>s_hi\<close> when the event
  count of the run is below the target, and for \<open>s_lo\<close> when it is above.
\<close>

definition narrows ::
  "(sim_opts \<Rightarrow> dataframe) \<Rightarrow> sim_opts \<Rightarrow> real \<Rightarrow> real \<Rightarrow> real \<times> real \<Rightarrow> real \<times> real \<Rightarrow> bool" where
  "narrows wall opts target_events tol b b' =
     (case get_oracle_df wall (opts\<lparr>opt_s := (fst b + snd b) / 2\<rparr>) of
        Inl e \<Rightarrow> False
      | Inr (odf, cost) \<Rightarrow>
          \<not> stop_condition (sum_list (events odf)) target_events tol \<and>
          (if real (sum_list (events odf)) < target_events
           then b' = (fst b, (fst b + snd b) / 2)
           else target_events < real (sum_list (events odf)) \<and>
                b' = ((fst b + snd b) / 2, snd b)))"

text \<open>
  The iteration at the bracket \<open>b\<close> returns \<open>c\<close>: \<open>c\<close> is the oracle run at the midpoint, and
  the relative error of its event count to the target is below the tolerance, or the count
  is the ceiling of the target, or it is the floor of the target.
\<close>

definition returns_at ::
  "(sim_opts \<Rightarrow> dataframe) \<Rightarrow> sim_opts \<Rightarrow> real \<Rightarrow> real \<Rightarrow> real \<times> real \<Rightarrow> calibration \<Rightarrow> bool" where
  "returns_at wall opts target_events tol b c =
     (cal_s c = (fst b + snd b) / 2 \<and>
      get_oracle_df wall (opts\<lparr>opt_s := cal_s c\<rparr>) = Inr (cal_df c, cal_cost c) \<and>
      (target_events \<noteq> 0 \<and>
         \<bar>real (sum_list (events (cal_df c))) - target_events\<bar> / target_events < tol \<or>
       real (sum_list (events (cal_df c))) = of_int \<lceil>target_events\<rceil> \<or>
       real (sum_list (events (cal_df c))) = of_int \<lfloor>target_events\<rfloor>))"

text \<open>Every bracket of the list narrows to the next one.\<close>

fun narrowing ::
  "(sim_opts \<Rightarrow> dataframe) \<Rightarrow> sim_opts \<Rightarrow> real \<Rightarrow> real \<Rightarrow> (real \<times> real) list \<Rightarrow> bool" where
  "narrowing wall opts target_events tol (b # b' # bs) =
     (narrows wall opts target_events tol b b' \<and> narrowing wall opts target_events tol (b' # bs))"
| "narrowing wall opts target_events tol bs = True"

text \<open>
  A wall with two competing events, at \<open>t = 7\<close> and \<open>t = 9\<close>, and a configuration for it
  with the weight 2 and the horizon 10.
\<close>

definition two_event_wall :: "sim_opts \<Rightarrow> dataframe" where
  "two_event_wall opts =
     [\<lparr>event_id = 0, t = 7, src_id = 1, sink_id = 0\<rparr>,
      \<lparr>event_id = 1, t = 9, src_id = 1, sink_id = 0\<rparr>]"

definition two_event_opts :: sim_opts where
  "two_event_opts =
     \<lparr>opt_src_id = 0, opt_end_time = 10, opt_q_vec = [2], opt_s = 1, opt_sink_ids = [0]\<rparr>"

section \<open>Verification\<close>

subsection \<open>Rank Tracker\<close>

lemma is_sorted_iff_sorted: "is_sorted (Float64 xs) True = sorted xs"
  by (induction xs rule: np_diff.induct) (auto simp: is_sorted_def intro: order_trans)

lemma length_accumulate_from [simp]: "length (accumulate_from m xs) = length xs"
  by (induction xs arbitrary: m) auto

lemma length_maximum_accumulate [simp]: "length (maximum_accumulate xs) = length xs"
  by (simp add: maximum_accumulate_def split: list.splits)

lemma accumulate_from_0: "xs \<noteq> [] \<Longrightarrow> accumulate_from m xs ! 0 = max m (xs ! 0)"
  by (cases xs) auto

lemma accumulate_from_Suc:
  "Suc k < length xs \<Longrightarrow>
     accumulate_from m xs ! Suc k = max (accumulate_from m xs ! k) (xs ! Suc k)"
proof (induction xs arbitrary: m k)
  case Nil
  then show ?case by simp
next
  case (Cons x xs)
  show ?case
  proof (cases k)
    case 0
    with Cons.prems show ?thesis by (simp add: accumulate_from_0)
  next
    case (Suc j)
    with Cons.prems have "Suc j < length xs" by simp
    from Cons.IH [OF this] Suc show ?thesis by simp
  qed
qed

lemma maximum_accumulate_0: "xs \<noteq> [] \<Longrightarrow> maximum_accumulate xs ! 0 = xs ! 0"
  by (cases xs) (auto simp: maximum_accumulate_def)

lemma maximum_accumulate_Suc:
  assumes a: "Suc k < length xs"
  shows "maximum_accumulate xs ! Suc k = max (maximum_accumulate xs ! k) (xs ! Suc k)"
proof (cases xs)
  case Nil
  with a show ?thesis by simp
next
  case (Cons x ys)
  show ?thesis
  proof (cases k)
    case 0
    with a Cons show ?thesis by (simp add: maximum_accumulate_def accumulate_from_0)
  next
    case (Suc j)
    with a Cons have "Suc j < length ys" by simp
    from accumulate_from_Suc [OF this, of x] Suc Cons show ?thesis
      by (simp add: maximum_accumulate_def)
  qed
qed

lemma most_recent_post_0: "most_recent_post a x 0 = (if x ! 0 = a then 1 else 0)"
  by (simp add: most_recent_post_def)

lemma most_recent_post_Suc:
  "most_recent_post a x (Suc k) = (if x ! Suc k = a then int k + 2 else most_recent_post a x k)"
  by (simp add: most_recent_post_def)

lemma most_recent_post_bounds: "0 \<le> most_recent_post a x k \<and> most_recent_post a x k \<le> int k + 1"
  by (induction k) (auto simp: most_recent_post_0 most_recent_post_Suc)

lemma length_marks [simp]: "length (marks src x) = length x"
  by (simp add: marks_def)

lemma nth_marks:
  "k < length x \<Longrightarrow> marks src x ! k = (if Some (x ! k) = src then int k + 1 else 0)"
  by (simp add: marks_def nth_upto)

lemma running_max_is_most_recent:
  "k < length x \<Longrightarrow> maximum_accumulate (marks (Some a) x) ! k = most_recent_post a x k"
proof (induction k)
  case 0
  then have "marks (Some a) x \<noteq> []" by (cases x) (auto simp: marks_def upto.simps)
  from maximum_accumulate_0 [OF this] 0 show ?case
    by (simp add: nth_marks most_recent_post_0)
next
  case (Suc k)
  then have IH: "maximum_accumulate (marks (Some a) x) ! k = most_recent_post a x k" by simp
  from Suc.prems have "Suc k < length (marks (Some a) x)" by simp
  from maximum_accumulate_Suc [OF this] IH Suc.prems most_recent_post_bounds [of a x k]
  show ?case by (auto simp: nth_marks most_recent_post_Suc)
qed

lemma length_steps_to [simp]: "length (steps_to src x) = length x"
  by (simp add: steps_to_def)

lemma nth_steps_to:
  "k < length x \<Longrightarrow> steps_to (Some a) x ! k = int k + 1 - most_recent_post a x k"
  using running_max_is_most_recent [of k x a]
  by (simp add: steps_to_def nth_upto)

lemma stream_ranks_prefix:
  assumes V: "length (stream df g) \<le> length V"
      and G: "\<And>i. i < length df \<Longrightarrow> sink_id (df ! i) = g \<Longrightarrow>
                  G i = V ! length (stream (take i df) g)"
  shows "m \<le> length df \<Longrightarrow>
           map snd (filter (\<lambda>(e, r). sink_id e = g) (zip (take m df) (map G [0..<m])))
             = take (length (stream (take m df) g)) V"
proof (induction m)
  case 0
  then show ?case by (simp add: stream_def)
next
  case (Suc m)
  then have m: "m < length df" by simp
  have tk: "take (Suc m) df = take m df @ [df ! m]"
    using m by (simp add: take_Suc_conv_app_nth)
  have IH: "map snd (filter (\<lambda>(e, r). sink_id e = g) (zip (take m df) (map G [0..<m])))
             = take (length (stream (take m df) g)) V"
    using Suc by simp
  show ?case
  proof (cases "sink_id (df ! m) = g")
    case False
    then show ?thesis using IH m by (simp add: tk stream_def)
  next
    case True
    have "length (stream (take (Suc m) df) g) \<le> length (stream df g)"
    proof -
      have "stream df g = stream (take (Suc m) df) g @ stream (drop (Suc m) df) g"
        unfolding stream_def by (metis append_take_drop_id filter_append)
      then show ?thesis by simp
    qed
    then have c: "length (stream (take m df) g) < length V"
      using V True by (simp add: tk stream_def)
    show ?thesis
      using IH m True G [OF m True] c
      by (simp add: tk stream_def take_Suc_conv_app_nth)
  qed
qed

lemma zip_map_snd_filter:
  "map snd (filter (\<lambda>(e, r). P e) (zip xs (map h ys)))
     = map h (map snd (filter (\<lambda>(e, r). P e) (zip xs ys)))"
  by (induction xs arbitrary: ys) (auto simp: zip_Cons1 split: list.splits)

lemma stream_ranks_eq:
  "stream_ranks df src g = map of_int (steps_to src (map src_id (stream df g)))"
proof -
  let ?V = "steps_to src (map src_id (stream df g))"
  let ?G = "\<lambda>i. steps_to src (map src_id (stream df (sink_id (df ! i))))
                 ! length (stream (take i df) (sink_id (df ! i)))"
  have "map snd (filter (\<lambda>(e, r). sink_id e = g) (zip (take (length df) df) (map ?G [0..<length df])))
          = take (length (stream (take (length df) df) g)) ?V"
    by (rule stream_ranks_prefix) auto
  then have "map snd (filter (\<lambda>(e, r). sink_id e = g) (zip df (groupby_transform (steps_to src) df))) = ?V"
    by (simp add: groupby_transform_def)
  then show ?thesis
    by (simp add: stream_ranks_def rank_column_def zip_map_snd_filter)
qed

lemma most_recent_post_self: "x ! k = a \<Longrightarrow> most_recent_post a x k = int k + 1"
  by (cases k) (simp_all add: most_recent_post_0 most_recent_post_Suc)

lemma most_recent_post_none: "(\<And>j. j \<le> k \<Longrightarrow> x ! j \<noteq> a) \<Longrightarrow> most_recent_post a x k = 0"
  by (induction k) (simp_all add: most_recent_post_0 most_recent_post_Suc)

lemma rank_of_src_in_df_returns:
  "is_sorted (Float64 (map t df)) True \<Longrightarrow>
     rank_of_src_in_df df src fill with_time =
       Inr ((if fill then ffill else id)
              (pivot_table (if with_time then t else of_int \<circ> event_id)
                 (zip df (rank_column df src))))"
  by (simp add: rank_of_src_in_df_def Let_def)

lemma is_sorted_float_non_strict:
  "(\<forall>i. Suc i < length x \<longrightarrow> x ! i \<le> x ! Suc i) \<Longrightarrow> is_sorted (Float64 x) True"
  by (simp add: is_sorted_iff_sorted sorted_iff_nth_Suc)

lemma wrap64_small: "- (2 ^ 63) \<le> z \<Longrightarrow> z < 2 ^ 63 \<Longrightarrow> wrap64 z = z"
  by (simp add: wrap64_def)

lemma is_sorted_int64_small:
  "list_all (\<lambda>v. - (2 ^ 62) \<le> v \<and> v < 2 ^ 62) xs \<Longrightarrow> is_sorted (Int64 xs) True = sorted xs"
proof (induction xs rule: np_diff.induct)
  case (1 x y xs)
  then have "wrap64 (y - x) = y - x" by (intro wrap64_small) simp_all
  with 1 show ?case by (auto simp: is_sorted_def intro: order_trans)
qed (simp_all add: is_sorted_def)

text \<open>
  C9 fails on the code for arrays of 64-bit integers: the ascending pair
  \<open>[-2\<^sup>6\<^sup>3, 2\<^sup>6\<^sup>3 - 1]\<close> is rejected, because its difference wraps around to \<open>-1\<close>, and the
  descending pair \<open>[2\<^sup>6\<^sup>3 - 1, -2\<^sup>6\<^sup>3]\<close> is accepted. (Arrays of timestamps, and arrays of
  integers between \<open>-2\<^sup>6\<^sup>2\<close> and \<open>2\<^sup>6\<^sup>2 - 1\<close>, are accepted exactly when they are
  ascending, equal neighbours included: \<open>is_sorted_iff_sorted\<close>, \<open>is_sorted_int64_small\<close>.)
\<close>

theorem is_sorted_int64_wraps:
  "sorted [- (2 ^ 63), 2 ^ 63 - 1 :: int] \<and>
   \<not> is_sorted (Int64 [- (2 ^ 63), 2 ^ 63 - 1]) True \<and>
   \<not> sorted [2 ^ 63 - 1, - (2 ^ 63) :: int] \<and>
   is_sorted (Int64 [2 ^ 63 - 1, - (2 ^ 63)]) True \<and>
   is_sorted (Float64 [1, 1, 2]) True \<and>
   is_sorted (Float64 (map t simultaneous_log)) True"
  by (simp add: is_sorted_def wrap64_def simultaneous_log_def)
lemma pos_in_list:
  "x \<in> set xs \<Longrightarrow>
     length (takeWhile (\<lambda>y. y \<noteq> x) xs) < length xs \<and>
     xs ! length (takeWhile (\<lambda>y. y \<noteq> x) xs) = x"
  by (induction xs) auto

lemma pivot_table_cell:
  assumes "tm \<in> set (map (key \<circ> fst) rows)" and "c \<in> set (map (sink_id \<circ> fst) rows)"
  shows "cell_at (pivot_table key rows) tm c =
           mean (map snd (filter (\<lambda>(e, r). key e = tm \<and> sink_id e = c) rows))"
proof -
  let ?idx = "sort (remdups (map (key \<circ> fst) rows))"
  let ?cols = "sort (remdups (map (sink_id \<circ> fst) rows))"
  from assms(1) have "tm \<in> set ?idx" by simp
  from pos_in_list [OF this]
  have i: "length (takeWhile (\<lambda>y. y \<noteq> tm) ?idx) < length ?idx"
    and ti: "?idx ! length (takeWhile (\<lambda>y. y \<noteq> tm) ?idx) = tm" by blast+
  from assms(2) have "c \<in> set ?cols" by simp
  from pos_in_list [OF this]
  have j: "length (takeWhile (\<lambda>y. y \<noteq> c) ?cols) < length ?cols"
    and cj: "?cols ! length (takeWhile (\<lambda>y. y \<noteq> c) ?cols) = c" by blast+
  show ?thesis
    unfolding cell_at_def pivot_table_def Let_def label_pos_def
    using i j by (simp add: ti cj del: length_sort)
qed

lemma ffill_rows_keeps:
  assumes "i < length rows" and "j < length prev"
      and "list_all (\<lambda>row. length row = length prev) rows"
      and "rows ! i ! j = Some x"
  shows "ffill_rows prev rows ! i ! j = Some x"
  using assms
proof (induction rows arbitrary: prev i)
  case Nil
  then show ?case by simp
next
  case (Cons row rows)
  define row' where "row' = map2 (\<lambda>p v. case v of None \<Rightarrow> p | Some x \<Rightarrow> Some x) prev row"
  have unfold: "ffill_rows prev (row # rows) = row' # ffill_rows row' rows"
    by (simp add: row'_def Let_def)
  from Cons.prems(3) have lrow: "length row = length prev"
    and rest: "list_all (\<lambda>r. length r = length prev) rows" by simp_all
  have len: "length row' = length prev" by (simp add: row'_def lrow)
  show ?case
  proof (cases i)
    case 0
    with Cons.prems(4) have "row ! j = Some x" by simp
    then have "row' ! j = Some x"
      using Cons.prems(2) lrow by (simp add: row'_def)
    with 0 show ?thesis unfolding unfold by simp
  next
    case (Suc i')
    with Cons.prems(1,4) have i': "i' < length rows" and cell: "rows ! i' ! j = Some x"
      by simp_all
    have j': "j < length row'" using Cons.prems(2) len by simp
    have rest': "list_all (\<lambda>r. length r = length row') rows" using rest len by simp
    from Cons.IH [OF i' j' rest' cell] Suc show ?thesis unfolding unfold by simp
  qed
qed

lemma ffill_cell:
  assumes "tm \<in> set (map (key \<circ> fst) rows)" and "c \<in> set (map (sink_id \<circ> fst) rows)"
      and "cell_at (pivot_table key rows) tm c = Some x"
  shows "cell_at (ffill (pivot_table key rows)) tm c = Some x"
proof -
  define p where "p = pivot_table key rows"
  have idx: "index p = sort (remdups (map (key \<circ> fst) rows))"
    and cols: "columns p = sort (remdups (map (sink_id \<circ> fst) rows))"
    and nrows: "length (vals p) = length (index p)"
    and shape: "list_all (\<lambda>row. length row = length (columns p)) (vals p)"
    by (simp_all add: p_def pivot_table_def Let_def list_all_length)
  from assms(1) have "tm \<in> set (index p)" by (simp add: idx)
  from pos_in_list [OF this]
  have i: "length (takeWhile (\<lambda>y. y \<noteq> tm) (index p)) < length (vals p)"
    by (simp add: nrows)
  from assms(2) have "c \<in> set (columns p)" by (simp add: cols)
  from pos_in_list [OF this]
  have j: "label_pos (columns p) c < length (replicate (length (columns p)) (None :: real option))"
    by (simp add: label_pos_def)
  have shape': "list_all (\<lambda>row. length row =
                  length (replicate (length (columns p)) (None :: real option))) (vals p)"
    using shape by simp
  from assms(3) have cell:
    "vals p ! length (takeWhile (\<lambda>y. y \<noteq> tm) (index p)) ! label_pos (columns p) c = Some x"
    by (simp add: cell_at_def p_def)
  from ffill_rows_keeps [OF i j shape' cell]
  show ?thesis unfolding p_def [symmetric] by (simp add: cell_at_def ffill_def)
qed

lemma filter_single:
  "distinct (map f xs) \<Longrightarrow> k < length xs \<Longrightarrow> length ys = length xs \<Longrightarrow>
     filter (\<lambda>(e, r). f e = f (xs ! k)) (zip xs ys) = [(xs ! k, ys ! k)]"
proof (induction xs arbitrary: k ys)
  case Nil
  then show ?case by simp
next
  case (Cons x xs)
  then obtain y ys' where ys: "ys = y # ys'" by (cases ys) auto
  show ?case
  proof (cases k)
    case 0
    have "f e \<noteq> f x" if "(e, r) \<in> set (zip xs ys')" for e r
    proof -
      from that have "e \<in> set xs" by (rule set_zip_leftD)
      then have "f e \<in> f ` set xs" by simp
      with Cons.prems(1) show ?thesis by auto
    qed
    then have "filter (\<lambda>(e, r). f e = f x) (zip xs ys') = []"
      by (auto simp: filter_empty_conv)
    with 0 ys show ?thesis by simp
  next
    case (Suc k')
    with Cons.prems ys have "f x \<noteq> f (xs ! k')" by auto
    moreover have "filter (\<lambda>(e, r). f e = f (xs ! k')) (zip xs ys') = [(xs ! k', ys' ! k')]"
      using Cons.prems Suc ys by (intro Cons.IH) auto
    ultimately show ?thesis using Suc ys by simp
  qed
qed

lemma length_rank_column [simp]: "length (rank_column df src) = length df"
  by (simp add: rank_column_def groupby_transform_def)

lemma follower_rows:
  "length rc = length df \<Longrightarrow>
     filter (\<lambda>(e, r). sink_id e = g) (zip df rc) =
       zip (stream df g) (map snd (filter (\<lambda>(e, r). sink_id e = g) (zip df rc)))"
  by (induction rc df rule: list_induct2) (auto simp: stream_def)

lemma length_stream_ranks [simp]: "length (stream_ranks df src g) = length (stream df g)"
  by (simp add: stream_ranks_eq)

lemma rows_at_event:
  assumes "distinct (map t (stream df g))" and "k < length (stream df g)"
  shows "filter (\<lambda>(e, r). t e = t (stream df g ! k) \<and> sink_id e = g) (zip df (rank_column df src))
           = [(stream df g ! k, stream_ranks df src g ! k)]"
proof -
  have "filter (\<lambda>(e, r). t e = t (stream df g ! k) \<and> sink_id e = g) (zip df (rank_column df src))
          = filter (\<lambda>(e, r). t e = t (stream df g ! k))
              (filter (\<lambda>(e, r). sink_id e = g) (zip df (rank_column df src)))"
    by (simp add: conj_commute case_prod_unfold)
  also have "filter (\<lambda>(e, r). sink_id e = g) (zip df (rank_column df src))
               = zip (stream df g) (stream_ranks df src g)"
    using follower_rows [of "rank_column df src" df g] by (simp add: stream_ranks_def)
  also have "filter (\<lambda>(e, r). t e = t (stream df g ! k)) (zip (stream df g) (stream_ranks df src g))
               = [(stream df g ! k, stream_ranks df src g ! k)]"
    using assms by (intro filter_single) simp_all
  finally show ?thesis .
qed

lemma tracker_cell:
  assumes "is_sorted (Float64 (map t df)) True" and "distinct (map t (stream df g))"
      and "k < length (stream df g)"
  shows "\<exists>p. rank_of_src_in_df df src fill True = Inr p \<and>
             cell_at p (t (stream df g ! k)) g = Some (stream_ranks df src g ! k)"
proof -
  let ?rows = "zip df (rank_column df src)"
  let ?e = "stream df g ! k"
  from assms(3) have "?e \<in> set (stream df g)" by simp
  then have e: "?e \<in> set df" "sink_id ?e = g" by (auto simp: stream_def)
  have tm: "t ?e \<in> set (map (t \<circ> fst) ?rows)"
    using e(1) by (simp add: map_fst_zip flip: map_map)
  have c: "g \<in> set (map (sink_id \<circ> fst) ?rows)"
    using e by (force simp add: map_fst_zip simp flip: map_map)
  have raw: "cell_at (pivot_table t ?rows) (t ?e) g = Some (stream_ranks df src g ! k)"
    using pivot_table_cell [OF tm c] rows_at_event [OF assms(2,3), of src]
    by (simp add: mean_def)
  from ffill_cell [OF tm c raw]
  have filled: "cell_at (ffill (pivot_table t ?rows)) (t ?e) g = Some (stream_ranks df src g ! k)" .
  show ?thesis
    using assms(1) raw filled by (cases fill) (simp_all add: rank_of_src_in_df_def Let_def)
qed
text \<open>
  C4, as the code has it: in a log sorted by time, for a follower that receives no two
  events at the same time, the Rank Tracker returns a trajectory (forward-filled or not)
  whose cell at the time of the event at the stream position \<open>k + 1\<close> (1-based) of that
  follower is \<open>k + 1\<close> minus the 1-based index of the most recent post of the source in the
  stream: it is 0 at every post of the source, it is the position itself before the first
  post of the source, it is never negative, and from one event to the next, when that is
  not a post of the source, it increases by exactly one.
\<close>

theorem rank_within_stream:
  assumes "is_sorted (Float64 (map t df)) True" and "distinct (map t (stream df g))"
      and "k < length (stream df g)"
  shows "\<exists>p. rank_of_src_in_df df (Some a) fill True = Inr p \<and>
           cell_at p (t (stream df g ! k)) g =
             Some (of_int (int k + 1 - most_recent_post a (map src_id (stream df g)) k)) \<and>
           (src_id (stream df g ! k) = a \<longrightarrow> cell_at p (t (stream df g ! k)) g = Some 0) \<and>
           ((\<forall>j\<le>k. src_id (stream df g ! j) \<noteq> a) \<longrightarrow>
              cell_at p (t (stream df g ! k)) g = Some (real k + 1)) \<and>
           (\<exists>r. cell_at p (t (stream df g ! k)) g = Some r \<and> 0 \<le> r) \<and>
           (Suc k < length (stream df g) \<and> src_id (stream df g ! Suc k) \<noteq> a \<longrightarrow>
              (\<exists>r. cell_at p (t (stream df g ! k)) g = Some r \<and>
                   cell_at p (t (stream df g ! Suc k)) g = Some (r + 1)))"
proof -
  let ?x = "map src_id (stream df g)"
  have k: "k < length ?x" using assms(3) by simp
  have nth: "\<And>i. i < length ?x \<Longrightarrow>
               stream_ranks df (Some a) g ! i = of_int (int i + 1 - most_recent_post a ?x i)"
    by (simp add: stream_ranks_eq nth_steps_to)
  have returned: "rank_of_src_in_df df (Some a) fill True =
      Inr ((if fill then ffill else id) (pivot_table t (zip df (rank_column df (Some a)))))"
    using assms(1) by (simp add: rank_of_src_in_df_returns)
  define p where
    "p = (if fill then ffill else id) (pivot_table t (zip df (rank_column df (Some a))))"
  have cells: "cell_at p (t (stream df g ! i)) g = Some (stream_ranks df (Some a) g ! i)"
    if "i < length (stream df g)" for i
    using tracker_cell [OF assms(1,2) that, of "Some a" fill] returned by (simp add: p_def)
  have 1: "cell_at p (t (stream df g ! k)) g =
             Some (of_int (int k + 1 - most_recent_post a ?x k))"
    using cells [OF assms(3)] nth [OF k] by simp
  have 2: "src_id (stream df g ! k) = a \<longrightarrow> cell_at p (t (stream df g ! k)) g = Some 0"
    using k most_recent_post_self [of ?x k a] by (simp add: 1)
  have 3: "(\<forall>j\<le>k. src_id (stream df g ! j) \<noteq> a) \<longrightarrow>
             cell_at p (t (stream df g ! k)) g = Some (real k + 1)"
  proof
    assume h: "\<forall>j\<le>k. src_id (stream df g ! j) \<noteq> a"
    have "most_recent_post a ?x k = 0"
    proof (rule most_recent_post_none)
      fix j assume "j \<le> k"
      with h k show "?x ! j \<noteq> a" by simp
    qed
    then show "cell_at p (t (stream df g ! k)) g = Some (real k + 1)" by (simp add: 1)
  qed
  have 4: "\<exists>r. cell_at p (t (stream df g ! k)) g = Some r \<and> 0 \<le> r"
    using most_recent_post_bounds [of a ?x k] by (simp add: 1)
  have 5: "Suc k < length (stream df g) \<and> src_id (stream df g ! Suc k) \<noteq> a \<longrightarrow>
             (\<exists>r. cell_at p (t (stream df g ! k)) g = Some r \<and>
                  cell_at p (t (stream df g ! Suc k)) g = Some (r + 1))"
  proof
    assume h: "Suc k < length (stream df g) \<and> src_id (stream df g ! Suc k) \<noteq> a"
    then have sk: "Suc k < length ?x" by simp
    have "cell_at p (t (stream df g ! Suc k)) g =
            Some (of_int (int (Suc k) + 1 - most_recent_post a ?x (Suc k)))"
      using cells [of "Suc k"] h nth [OF sk] by simp
    also have "\<dots> = Some (of_int (int k + 1 - most_recent_post a ?x k) + 1)"
      using h sk by (simp add: most_recent_post_Suc)
    finally show "\<exists>r. cell_at p (t (stream df g ! k)) g = Some r \<and>
                      cell_at p (t (stream df g ! Suc k)) g = Some (r + 1)"
      using 1 by simp
  qed
  from returned 1 2 3 4 5 show ?thesis unfolding p_def [symmetric] by blast
qed

lemma competitor_first_trajectory:
  "rank_of_src_in_df competitor_first_log (Some 0) True True =
     Inr \<lparr>index = [0, 1, 2, 3], columns = [1, 2],
          vals = [[Some 1, None], [Some 0, None], [Some 1, Some 1], [Some 2, Some 1]]\<rparr>"
  by (simp add: competitor_first_log_def rank_of_src_in_df_def is_sorted_def pivot_table_def
      ffill_def mean_def rank_column_def groupby_transform_def stream_def steps_to_def marks_def
      maximum_accumulate_def upt_rec upto.simps Let_def)

theorem rank_within_stream_witness:
  "is_sorted (Float64 (map t competitor_first_log)) True \<and>
   map t (stream competitor_first_log 1) = [0, 1, 2, 3] \<and>
   map src_id (stream competitor_first_log 1) = [1, 0, 1, 1] \<and>
   cell_at \<lparr>index = [0, 1, 2, 3], columns = [1, 2],
            vals = [[Some 1, None], [Some 0, None], [Some 1, Some 1], [Some 2, Some 1]]\<rparr> 0 1
     = Some 1 \<and>
   cell_at \<lparr>index = [0, 1, 2, 3], columns = [1, 2],
            vals = [[Some 1, None], [Some 0, None], [Some 1, Some 1], [Some 2, Some 1]]\<rparr> 1 1
     = Some 0 \<and>
   cell_at \<lparr>index = [0, 1, 2, 3], columns = [1, 2],
            vals = [[Some 1, None], [Some 0, None], [Some 1, Some 1], [Some 2, Some 1]]\<rparr> 2 1
     = Some (0 + 1)"
proof -
  let ?p = "\<lparr>index = [0, 1, 2, 3], columns = [1, 2],
             vals = [[Some 1, None], [Some 0, None], [Some 1, Some 1], [Some 2, Some (1::real)]]\<rparr>"
  have s: "is_sorted (Float64 (map t competitor_first_log)) True"
    by (simp add: competitor_first_log_def is_sorted_def)
  have l: "stream competitor_first_log 1 =
             [\<lparr>event_id = 0, t = 0, src_id = 1, sink_id = 1\<rparr>,
              \<lparr>event_id = 1, t = 1, src_id = 0, sink_id = 1\<rparr>,
              \<lparr>event_id = 2, t = 2, src_id = 1, sink_id = 1\<rparr>,
              \<lparr>event_id = 3, t = 3, src_id = 1, sink_id = 1\<rparr>]"
    by (simp add: competitor_first_log_def stream_def)
  have d: "distinct (map t (stream competitor_first_log 1))" by (simp add: l)
  have k0: "0 < length (stream competitor_first_log 1)"
    and k1: "1 < length (stream competitor_first_log 1)" by (simp_all add: l)
  have A: "\<forall>j\<le>0. src_id (stream competitor_first_log 1 ! j) \<noteq> 0" by (simp add: l)
  have B: "src_id (stream competitor_first_log 1 ! 1) = 0" by (simp add: l)
  have C: "Suc 1 < length (stream competitor_first_log 1) \<and>
           src_id (stream competitor_first_log 1 ! Suc 1) \<noteq> 0" by (simp add: l)
  have t0: "t (stream competitor_first_log 1 ! 0) = 0"
    and t1: "t (stream competitor_first_log 1 ! 1) = 1"
    and t2: "t (stream competitor_first_log 1 ! Suc 1) = 2" by (simp_all add: l)
  from rank_within_stream [OF s d k0, of 0 True] A
  obtain p where p: "rank_of_src_in_df competitor_first_log (Some 0) True True = Inr p"
    and c0: "cell_at p (t (stream competitor_first_log 1 ! 0)) 1 = Some (real 0 + 1)"
    by blast
  from p have "p = ?p" by (simp add: competitor_first_trajectory)
  with c0 [unfolded t0] have r0: "cell_at ?p 0 1 = Some 1" by simp
  from rank_within_stream [OF s d k1, of 0 True] B C
  obtain p' r where p': "rank_of_src_in_df competitor_first_log (Some 0) True True = Inr p'"
    and c1: "cell_at p' (t (stream competitor_first_log 1 ! 1)) 1 = Some 0"
    and c1': "cell_at p' (t (stream competitor_first_log 1 ! 1)) 1 = Some r"
    and c2: "cell_at p' (t (stream competitor_first_log 1 ! Suc 1)) 1 = Some (r + 1)"
    by blast
  from p' have p'_eq: "p' = ?p" by (simp add: competitor_first_trajectory)
  from c1 c1' have r: "r = 0" by simp
  from c1 [unfolded t1 p'_eq] have r1: "cell_at ?p 1 1 = Some 0" .
  from c2 [unfolded t2 p'_eq r] have r2: "cell_at ?p 2 1 = Some (0 + 1)" .
  from s r0 r1 r2 show ?thesis by (simp add: l)
qed

text \<open>
  C4, as the specification states it, fails for a follower that receives simultaneous
  events: the cell of a trajectory is the mean of the ranks of the follower's events at
  that time. In the sorted log \<open>simultaneous_log\<close> the source posts to follower 1 at
  \<open>t = 1\<close>, and the returned rank of follower 1 at \<open>t = 1\<close> is \<open>1/2\<close>, not 0.
\<close>

theorem simultaneous_events_counterexample:
  "is_sorted (Float64 (map t simultaneous_log)) True \<and>
   src_id (simultaneous_log ! 1) = 0 \<and> t (simultaneous_log ! 1) = 1 \<and>
   sink_id (simultaneous_log ! 1) = 1 \<and>
   rank_of_src_in_df simultaneous_log (Some 0) True True =
     Inr \<lparr>index = [1, 2], columns = [1], vals = [[Some (1 / 2)], [Some (3 / 2)]]\<rparr> \<and>
   cell_at \<lparr>index = [1, 2], columns = [1], vals = [[Some (1 / 2)], [Some (3 / 2)]]\<rparr> 1 1
     = Some (1 / 2) \<and>
   cell_at \<lparr>index = [1, 2], columns = [1], vals = [[Some (1 / 2)], [Some (3 / 2)]]\<rparr> 1 1
     \<noteq> Some 0"
  by (simp add: simultaneous_log_def rank_of_src_in_df_def is_sorted_def pivot_table_def
      ffill_def mean_def rank_column_def groupby_transform_def stream_def steps_to_def marks_def
      maximum_accumulate_def upt_rec upto.simps Let_def cell_at_def label_pos_def)

text \<open>
  C3, as the code has it: in the scenario the trajectory of follower 1 reads
  \<open>[0, 1, 2, 3]\<close> at \<open>t = [0, 1, 2, 3]\<close>, and that of follower 2 reads \<open>[0, 0, 0, 0]\<close> at
  the same grid points: the competitor's post reaches follower 2 at \<open>t = 4\<close>, where the
  rank becomes 1.
\<close>

theorem scenario_rank_trajectory:
  "rank_of_src_in_df scenario (Some 0) True True = Inr scenario_trajectory \<and>
   at_times scenario_trajectory 1 [0, 1, 2, 3] = [Some 0, Some 1, Some 2, Some 3] \<and>
   at_times scenario_trajectory 2 [0, 1, 2, 3] = [Some 0, Some 0, Some 0, Some 0] \<and>
   at_times scenario_trajectory 2 [4] = [Some 1]"
  by (simp add: scenario_def scenario_trajectory_def at_times_def label_pos_def
      rank_of_src_in_df_def is_sorted_def pivot_table_def ffill_def mean_def rank_column_def
      groupby_transform_def stream_def steps_to_def marks_def maximum_accumulate_def upt_rec upto.simps
      Let_def)

text \<open>
  C3, as the specification states it, fails: at the grid points \<open>t = [0, 1, 2, 3]\<close> the
  trajectory of follower 2 is not \<open>[0, 0, 0, 1]\<close>.
\<close>

theorem scenario_follower_2_counterexample:
  "rank_of_src_in_df scenario (Some 0) True True = Inr scenario_trajectory \<and>
   at_times scenario_trajectory 2 [0, 1, 2, 3] \<noteq> [Some 0, Some 0, Some 0, Some 1]"
  by (simp add: scenario_def scenario_trajectory_def at_times_def label_pos_def
      rank_of_src_in_df_def is_sorted_def pivot_table_def ffill_def mean_def rank_column_def
      groupby_transform_def stream_def steps_to_def marks_def maximum_accumulate_def upt_rec upto.simps
      Let_def)

subsection \<open>Oracle Scheduler: the backward pass\<close>

lemma shaped_row: "shaped n J \<Longrightarrow> r < n + 1 \<Longrightarrow> length (J ! r) = n + 2"
  by (simp add: shaped_def list_all_length)

lemma shaped_set_cell: "shaped n J \<Longrightarrow> shaped n (set_cell J r k v)"
  by (cases "r < length J") (auto simp: shaped_def set_cell_def list_all_length nth_list_update)

lemma nth_set_cell:
  "r < length J \<Longrightarrow> k < length (J ! r) \<Longrightarrow>
     set_cell J r k v ! r' ! k' = (if r' = r \<and> k' = k then v else J ! r' ! k')"
  by (auto simp: set_cell_def nth_list_update)

lemma bellman_cong:
  "(\<And>r'. J' ! r' ! (k + 1) = J ! r' ! (k + 1)) \<Longrightarrow> bellman q s w J' r k = bellman q s w J r k"
  by (simp add: bellman_def)

lemma shaped_fill_column: "shaped n J \<Longrightarrow> shaped n (fill_column q s w k rs J)"
  by (induction rs arbitrary: J) (auto simp: shaped_set_cell)

lemma nth_fill_column:
  assumes "shaped n J" and "k < n + 2" and "\<And>r. r \<in> set rs \<Longrightarrow> r < n + 1" and "distinct rs"
  shows "fill_column q s w k rs J ! r' ! k' =
           (if k' = k \<and> r' \<in> set rs then bellman q s w J r' k else J ! r' ! k')"
  using assms
proof (induction rs arbitrary: J)
  case Nil
  then show ?case by simp
next
  case (Cons r rs)
  let ?J' = "set_cell J r k (bellman q s w J r k)"
  have r: "r < length J" using Cons.prems by (simp add: shaped_def)
  have kr: "k < length (J ! r)" using Cons.prems shaped_row [of n J r] by simp
  have sh: "shaped n ?J'" using Cons.prems by (simp add: shaped_set_cell)
  have cells: "\<And>a b. ?J' ! a ! b = (if a = r \<and> b = k then bellman q s w J r k else J ! a ! b)"
    using nth_set_cell [OF r kr] by simp
  have same: "\<And>a. bellman q s w ?J' a k = bellman q s w J a k"
    by (rule bellman_cong) (simp add: cells)
  have "fill_column q s w k rs ?J' ! r' ! k' =
          (if k' = k \<and> r' \<in> set rs then bellman q s w ?J' r' k else ?J' ! r' ! k')"
    using Cons.prems by (intro Cons.IH sh) auto
  then show ?case using Cons.prems(4) by (auto simp: same cells)
qed

lemma backward_correct:
  assumes "shaped n J" and "k \<le> n"
  shows "shaped n (backward q s w n k J) \<and>
         (\<forall>k' r'. k < k' \<longrightarrow> backward q s w n k J ! r' ! k' = J ! r' ! k') \<and>
         (\<forall>k' r'. k' \<le> k \<and> r' < min (k' + 1) n \<longrightarrow>
            backward q s w n k J ! r' ! k' = bellman q s w (backward q s w n k J) r' k')"
  using assms
proof (induction k arbitrary: J)
  case 0
  let ?R = "fill_column q s w 0 [0..<min (0 + 1) n] J"
  have cells: "\<And>a b. ?R ! a ! b =
      (if b = 0 \<and> a \<in> set [0..<min (0 + 1) n] then bellman q s w J a 0 else J ! a ! b)"
    using 0 by (intro nth_fill_column [where n = n]) auto
  have same: "\<And>a. bellman q s w ?R a 0 = bellman q s w J a 0"
    by (rule bellman_cong) (use cells in simp)
  show ?case using 0 cells same by (auto simp: shaped_fill_column)
next
  case (Suc k)
  define J' where "J' = fill_column q s w (Suc k) [0..<min (Suc k + 1) n] J"
  define R where "R = backward q s w n k J'"
  have R: "backward q s w n (Suc k) J = R" by (simp add: R_def J'_def)
  have sh: "shaped n J'" using Suc.prems by (simp add: J'_def shaped_fill_column)
  have cells: "\<And>a b. J' ! a ! b =
      (if b = Suc k \<and> a \<in> set [0..<min (Suc k + 1) n] then bellman q s w J a (Suc k)
       else J ! a ! b)"
    unfolding J'_def using Suc.prems by (intro nth_fill_column [where n = n]) auto
  from Suc.IH [OF sh] Suc.prems
  have IH1: "shaped n R"
    and IH2: "\<And>k' r'. k < k' \<Longrightarrow> R ! r' ! k' = J' ! r' ! k'"
    and IH3: "\<And>k' r'. k' \<le> k \<Longrightarrow> r' < min (k' + 1) n \<Longrightarrow>
                R ! r' ! k' = bellman q s w R r' k'"
    unfolding R_def by auto
  have above: "\<And>k' r'. Suc k < k' \<Longrightarrow> R ! r' ! k' = J ! r' ! k'"
    by (simp add: IH2 cells)
  have same: "\<And>a. bellman q s w R a (Suc k) = bellman q s w J a (Suc k)"
    by (rule bellman_cong) (simp add: above)
  have here: "\<And>r'. r' < min (Suc k + 1) n \<Longrightarrow> R ! r' ! Suc k = bellman q s w R r' (Suc k)"
    by (simp add: IH2 cells same)
  have below: "\<And>k' r'. k' \<le> Suc k \<Longrightarrow> r' < min (k' + 1) n \<Longrightarrow>
                 R ! r' ! k' = bellman q s w R r' k'"
  proof -
    fix k' r' assume a: "k' \<le> Suc k" "r' < min (k' + 1) n"
    show "R ! r' ! k' = bellman q s w R r' k'"
    proof (cases "k' = Suc k")
      case True
      with a here show ?thesis by simp
    next
      case False
      with a have "k' \<le> k" by simp
      with a IH3 show ?thesis by simp
    qed
  qed
  show ?case unfolding R using IH1 above below by simp
qed

lemma shaped_J_init: "shaped n (J_init n)"
  by (simp add: shaped_def J_init_def list_all_length del: replicate.simps upt_Suc)

lemma nth_J_init:
  "r \<le> n \<Longrightarrow> k \<le> n + 1 \<Longrightarrow> J_init n ! r ! k = (if k = n + 1 then (real r)\<^sup>2 / 2 else 0)"
  by (simp add: J_init_def nth_list_update del: replicate.simps upt_Suc)

lemma nth_np_diff: "Suc i < length xs \<Longrightarrow> np_diff xs ! i = xs ! Suc i - xs ! i"
proof (induction xs arbitrary: i rule: np_diff.induct)
  case (1 x y xs)
  then show ?case by (cases i) simp_all
qed simp_all

lemma length_np_diff [simp]: "length (np_diff xs) = length xs - 1"
  by (induction xs rule: np_diff.induct) simp_all

lemma nth_oracle_w:
  "k \<le> length et \<Longrightarrow> oracle_w et end_t ! (k + 1) = (et @ [end_t]) ! k - (0 # et) ! k"
proof -
  assume k: "k \<le> length et"
  have "np_diff ([0, 0] @ et @ [end_t]) ! Suc k
          = ([0, 0] @ et @ [end_t]) ! Suc (Suc k) - ([0, 0] @ et @ [end_t]) ! Suc k"
    using k by (intro nth_np_diff) simp
  also have "([0, 0] @ et @ [end_t]) ! Suc k = (0 # et) ! k"
    using k by (cases k) (simp_all add: nth_append)
  finally show ?thesis by (simp add: oracle_w_def)
qed

text \<open>
  What the backward pass establishes: the last column of the filled table is
  \<open>r\<^sup>2 / 2\<close> for every \<open>r\<close> from 0 to \<open>n\<close>, and for every \<open>k\<close> from \<open>n\<close> down to 0 and
  every \<open>r\<close> below \<open>min(k + 1, n)\<close>, the range of the inner loop, the cell \<open>J[r, k]\<close> is the
  minimum of \<open>s/2 + J[0, k+1]\<close> and \<open>(q/2) \<sqdot> w[k+1] \<sqdot> (r+1)\<^sup>2 + J[r+1, k+1]\<close>, where
  \<open>w[k+1]\<close> is the time from the event before (or 0) to the event \<open>k + 1\<close> (or \<open>end_time\<close>).
\<close>

lemma backward_recurrence:
  assumes "n = length et" and "w = oracle_w et end_t" and "J = oracle_J q s w n"
  shows "(r' \<le> n \<longrightarrow> J ! r' ! (n + 1) = (real r')\<^sup>2 / 2) \<and>
         (k \<le> n \<and> r < min (k + 1) n \<longrightarrow>
            J ! r ! k = min (s / 2 + J ! 0 ! (k + 1))
                            (q / 2 * w ! (k + 1) * (real (r + 1))\<^sup>2 + J ! (r + 1) ! (k + 1)) \<and>
            w ! (k + 1) = (et @ [end_t]) ! k - (0 # et) ! k)"
proof -
  from backward_correct [OF shaped_J_init, of n n q s w]
  have above: "\<And>k' r'. n < k' \<Longrightarrow> J ! r' ! k' = J_init n ! r' ! k'"
    and below: "\<And>k' r'. k' \<le> n \<Longrightarrow> r' < min (k' + 1) n \<Longrightarrow> J ! r' ! k' = bellman q s w J r' k'"
    unfolding assms(3) oracle_J_def by auto
  have 1: "r' \<le> n \<longrightarrow> J ! r' ! (n + 1) = (real r')\<^sup>2 / 2"
    by (simp add: above nth_J_init)
  have 2: "k \<le> n \<and> r < min (k + 1) n \<longrightarrow>
            J ! r ! k = min (s / 2 + J ! 0 ! (k + 1))
                            (q / 2 * w ! (k + 1) * (real (r + 1))\<^sup>2 + J ! (r + 1) ! (k + 1))"
    using below [of k r] by (simp add: bellman_def)
  have 3: "k \<le> n \<longrightarrow> w ! (k + 1) = (et @ [end_t]) ! k - (0 # et) ! k"
    using nth_oracle_w [of k et end_t] assms(1,2) by simp
  from 1 2 3 show ?thesis by blast
qed

lemma oracle_w_one_event: "oracle_w [1] 2 = [0, 1, 1]"
  by (simp add: oracle_w_def)

lemma oracle_J_one_event: "oracle_J 1 10 [0, 1, 1] (Suc 0) = [[1 / 2, 1, 0], [0, 0, 1 / 2]]"
  by (simp add: oracle_J_def J_init_def set_cell_def bellman_def upt_rec power2_eq_square)

lemma oracle_J_tie: "oracle_J 1 (1 / 2) [0, 1, 1] (Suc 0) = [[1 / 2, 1 / 4, 0], [0, 0, 1 / 2]]"
  by (simp add: oracle_J_def J_init_def set_cell_def bellman_def upt_rec power2_eq_square)

lemma backward_recurrence_one_event:
  "(1::nat) = length [1::real] \<and> (1::nat) \<le> 1 \<and> (0::nat) \<le> 1 \<and> (0::nat) < min (0 + 1) 1 \<and>
   oracle_J 1 10 (oracle_w [1] 2) 1 ! 1 ! (1 + 1) = (real 1)\<^sup>2 / 2 \<and>
   oracle_J 1 10 (oracle_w [1] 2) 1 ! 0 ! 0 =
     min (10 / 2 + oracle_J 1 10 (oracle_w [1] 2) 1 ! 0 ! (0 + 1))
         (1 / 2 * oracle_w [1] 2 ! (0 + 1) * (real (0 + 1))\<^sup>2
            + oracle_J 1 10 (oracle_w [1] 2) 1 ! (0 + 1) ! (0 + 1)) \<and>
   oracle_w [1] 2 ! (0 + 1) = ([1] @ [2]) ! 0 - (0 # [1]) ! 0"
proof -
  have h: "(1::nat) = length [1::real]" by simp
  from backward_recurrence [where n = 1 and et = "[1]" and end_t = 2 and q = 1 and s = 10
      and r' = 1 and k = 0 and r = 0, OF h refl refl]
  show ?thesis by simp
qed

text \<open>
  C2 fails on the code at \<open>r = k = n\<close>, a rank that is reachable at the last event: with
  one event at \<open>t = 1\<close>, \<open>end_time = 2\<close>, \<open>q = 1\<close> and \<open>s = 10\<close> the table has the rows 0 and 1
  only, so that \<open>J[2, 2]\<close> does not exist, and \<open>J[1, 1]\<close> is never written and stays 0,
  while the right-hand side of the recurrence is 4 when the missing cell is read as the
  terminal penalty \<open>2\<^sup>2 / 2\<close>. The backward pass at \<open>k = n - 1\<close> and the forward pass read
  this cell.
\<close>

theorem recurrence_last_cell_counterexample:
  "length (oracle_J 1 10 (oracle_w [1] 2) 1) = 2 \<and>
   oracle_J 1 10 (oracle_w [1] 2) 1 ! 1 ! 1 = 0 \<and>
   oracle_J 1 10 (oracle_w [1] 2) 1 ! 1 ! 1 \<noteq>
     min (10 / 2 + oracle_J 1 10 (oracle_w [1] 2) 1 ! 0 ! (1 + 1))
         (1 / 2 * oracle_w [1] 2 ! (1 + 1) * (real (1 + 1))\<^sup>2 + (real (1 + 1))\<^sup>2 / 2)"
  by (simp add: oracle_w_one_event oracle_J_one_event)

text \<open>
  C1 fails on the code: with one competing event at \<open>t = 1\<close>, \<open>end_time = 2\<close>, \<open>q = 1\<close> and
  \<open>s = 10\<close> the oracle returns the cost \<open>1/2\<close>, while the cheapest of the two patterns of
  one decision costs 1 (and the cheapest pattern of decisions at both stages of the
  recurrence costs \<open>9/2\<close>): the path that never posts reads \<open>J[1, 1]\<close>, which the
  backward pass never writes.
\<close>

theorem oracle_cost_below_every_pattern:
  "oracle_ranking one_event_log (one_event_opts 10) None None =
     Inr (Oracle \<lparr>ranks = [0, 1], events = [0, 0], at_col = [0, 1], t_col = [0, 1],
                  t_delta = [1, 1]\<rparr> (1 / 2)) \<and>
   brute_force 1 10 (oracle_w [1] 2) 1 = 1 \<and>
   brute_force 1 10 (oracle_w [1] 2) 2 = 9 / 2"
proof -
  have et: "event_times one_event_log = [1]"
    by (simp add: event_times_def one_event_log_def)
  have "solve_oracle [1] 2 1 10 =
          Oracle \<lparr>ranks = [0, 1], events = [0, 0], at_col = [0, 1], t_col = [0, 1],
                  t_delta = [1, 1]\<rparr> (1 / 2)"
    by (simp add: solve_oracle_def Let_def oracle_w_one_event oracle_J_one_event forward_def
        forward_step_def post_cost_def wait_cost_def)
  then have 1: "oracle_ranking one_event_log (one_event_opts 10) None None =
     Inr (Oracle \<lparr>ranks = [0, 1], events = [0, 0], at_col = [0, 1], t_col = [0, 1],
                  t_delta = [1, 1]\<rparr> (1 / 2))"
    by (simp add: oracle_ranking_def et one_event_opts_def)
       (simp add: one_event_log_def is_sorted_def)
  have 2: "brute_force 1 10 (oracle_w [1] 2) 1 = 1"
    by (simp add: brute_force_def minimum_def oracle_w_def power2_eq_square)
  have 3: "brute_force 1 10 (oracle_w [1] 2) 2 = 9 / 2"
    by (simp add: brute_force_def minimum_def oracle_w_def power2_eq_square numeral_2_eq_2)
  from 1 2 3 show ?thesis by blast
qed

subsection \<open>Oracle Scheduler: the forward pass\<close>

lemma forward_prefix:
  "m \<le> n \<Longrightarrow>
     (let st = foldl (forward_step q s w J) (replicate (n + 1) 0, replicate (n + 1) 0) [0..<m]
      in length (fst st) = n + 1 \<and> length (snd st) = n + 1 \<and>
         (\<forall>k\<le>m. fst st ! k \<le> k) \<and>
         (\<forall>k<m. snd st ! k = (if post_cost s J k < wait_cost q w J (fst st ! k) k then 1 else 0) \<and>
                 fst st ! (k + 1) =
                   (if post_cost s J k < wait_cost q w J (fst st ! k) k then 0
                    else fst st ! k + 1)))"
proof (induction m)
  case 0
  then show ?case by simp
next
  case (Suc m)
  define st where
    "st = foldl (forward_step q s w J) (replicate (n + 1) 0, replicate (n + 1) 0) [0..<m]"
  define P where "P = (\<lambda>r k. post_cost s J k < wait_cost q w J r k)"
  from Suc have m: "m < n" by simp
  from Suc.IH m
  have len: "length (fst st) = n + 1" "length (snd st) = n + 1"
    and bound: "\<And>k. k \<le> m \<Longrightarrow> fst st ! k \<le> k"
    and old: "\<And>k. k < m \<Longrightarrow> snd st ! k = (if P (fst st ! k) k then 1 else 0) \<and>
                fst st ! (k + 1) = (if P (fst st ! k) k then 0 else fst st ! k + 1)"
    unfolding st_def P_def by (simp_all add: Let_def)
  define st' where "st' = forward_step q s w J st m"
  have st': "foldl (forward_step q s w J) (replicate (n + 1) 0, replicate (n + 1) 0) [0..<Suc m] = st'"
    by (simp add: st'_def st_def)
  have fst': "fst st' = (fst st)[m + 1 := (if P (fst st ! m) m then 0 else fst st ! m + 1)]"
    and snd': "snd st' = (snd st)[m := (if P (fst st ! m) m then 1 else 0)]"
    by (simp_all add: st'_def forward_step_def Let_def P_def)
  have a: "length (fst st') = n + 1" "length (snd st') = n + 1"
    by (simp_all add: fst' snd' len)
  have b: "\<And>k. k \<le> Suc m \<Longrightarrow> fst st' ! k \<le> k"
  proof -
    fix k assume k: "k \<le> Suc m"
    show "fst st' ! k \<le> k"
    proof (cases "k = Suc m")
      case True
      then show ?thesis using bound [of m] m by (simp add: fst' len)
    next
      case False
      with k have "k \<le> m" by simp
      then show ?thesis using bound [of k] by (simp add: fst')
    qed
  qed
  have c: "\<And>k. k < Suc m \<Longrightarrow> snd st' ! k = (if P (fst st' ! k) k then 1 else 0) \<and>
                fst st' ! (k + 1) = (if P (fst st' ! k) k then 0 else fst st' ! k + 1)"
  proof -
    fix k assume k: "k < Suc m"
    show "snd st' ! k = (if P (fst st' ! k) k then 1 else 0) \<and>
          fst st' ! (k + 1) = (if P (fst st' ! k) k then 0 else fst st' ! k + 1)"
    proof (cases "k = m")
      case True
      then show ?thesis using m by (simp add: fst' snd' len)
    next
      case False
      with k have "k < m" by simp
      then show ?thesis using old [of k] by (simp add: fst' snd')
    qed
  qed
  show ?case unfolding st' using a b c by (simp add: P_def)
qed

text \<open>
  C5: the forward pass records a post at the stage \<open>k\<close>, and resets the rank, only when the
  cost of the post branch is strictly below that of the wait branch; otherwise, and so
  whenever the two costs are equal, it records no post and increments the rank.
\<close>

theorem forward_tie_break:
  assumes "oracle_ranking df opts omit_src_ids follower_ids = Inr (Oracle odf cost)"
      and "et = event_times (omit_sources df omit_src_ids)" and "k < length et"
      and "opt_q_vec opts = [q]" and "s = opt_s opts"
      and "w = oracle_w et (opt_end_time opts)" and "J = oracle_J q s w (length et)"
  shows "events odf ! k = (if post_cost s J k < wait_cost q w J (ranks odf ! k) k then 1 else 0) \<and>
         ranks odf ! (k + 1) =
           (if post_cost s J k < wait_cost q w J (ranks odf ! k) k then 0 else ranks odf ! k + 1) \<and>
         (post_cost s J k = wait_cost q w J (ranks odf ! k) k \<longrightarrow>
            events odf ! k = 0 \<and> ranks odf ! (k + 1) = ranks odf ! k + 1) \<and>
         cost = J ! 0 ! 0"
proof -
  let ?n = "length et"
  from assms(1,2,4,5) have so: "solve_oracle et (opt_end_time opts) q s = Oracle odf cost"
    by (auto simp: oracle_ranking_def omit_sources_def Let_def
             split: option.splits if_splits list.splits)
  then have small: "\<not> ?n > 1000000"
    by (auto simp: solve_oracle_def Let_def split: if_splits)
  with so assms(6,7)
  have odf: "ranks odf = fst (forward q s w J ?n)" "events odf = snd (forward q s w J ?n)"
    and cost: "cost = J ! 0 ! 0"
    by (auto simp: solve_oracle_def Let_def)
  from forward_prefix [of ?n ?n q s w J] assms(3)
  have "events odf ! k = (if post_cost s J k < wait_cost q w J (ranks odf ! k) k then 1 else 0) \<and>
        ranks odf ! (k + 1) =
          (if post_cost s J k < wait_cost q w J (ranks odf ! k) k then 0 else ranks odf ! k + 1)"
    by (simp add: Let_def odf forward_def)
  with cost show ?thesis by simp
qed

theorem forward_tie_break_witness:
  "oracle_ranking one_event_log (one_event_opts (1 / 2)) None None =
     Inr (Oracle \<lparr>ranks = [0, 1], events = [0, 0], at_col = [0, 1], t_col = [0, 1],
                  t_delta = [1, 1]\<rparr> (1 / 2)) \<and>
   event_times (omit_sources one_event_log None) = [1] \<and>
   opt_q_vec (one_event_opts (1 / 2)) = [1] \<and>
   post_cost (1 / 2) (oracle_J 1 (1 / 2) (oracle_w [1] 2) 1) 0 =
     wait_cost 1 (oracle_w [1] 2) (oracle_J 1 (1 / 2) (oracle_w [1] 2) 1) 0 0 \<and>
   events \<lparr>ranks = [0, 1], events = [0, 0], at_col = [0, 1], t_col = [0, 1],
           t_delta = [1, 1]\<rparr> ! 0 = 0"
proof -
  let ?odf = "\<lparr>ranks = [0, 1], events = [0, 0], at_col = [0, 1], t_col = [0, 1],
               t_delta = [1, 1]\<rparr>"
  have tie: "post_cost (1 / 2) (oracle_J 1 (1 / 2) (oracle_w [1] 2) 1) 0 =
             wait_cost 1 (oracle_w [1] 2) (oracle_J 1 (1 / 2) (oracle_w [1] 2) 1) 0 0"
    by (simp add: oracle_w_one_event oracle_J_tie post_cost_def wait_cost_def)
  have et: "[1] = event_times (omit_sources one_event_log None)"
    by (simp add: event_times_def omit_sources_def one_event_log_def)
  have so: "solve_oracle [1] 2 1 (1 / 2) = Oracle ?odf (1 / 2)"
    by (simp add: solve_oracle_def Let_def oracle_w_one_event oracle_J_tie forward_def
        forward_step_def post_cost_def wait_cost_def)
  have et': "event_times one_event_log = [1]"
    by (simp add: event_times_def one_event_log_def)
  have orc: "oracle_ranking one_event_log (one_event_opts (1 / 2)) None None =
               Inr (Oracle ?odf (1 / 2))"
    using so
    by (simp add: oracle_ranking_def et' one_event_opts_def)
       (simp add: one_event_log_def is_sorted_def)
  have q: "opt_q_vec (one_event_opts (1 / 2)) = [1]"
    and s: "1 / 2 = opt_s (one_event_opts (1 / 2))"
    and w: "oracle_w [1] 2 = oracle_w [1] (opt_end_time (one_event_opts (1 / 2)))"
    by (simp_all add: one_event_opts_def)
  have k: "0 < length [1::real]" by simp
  have J: "oracle_J 1 (1 / 2) (oracle_w [1] 2) 1 =
           oracle_J 1 (1 / 2) (oracle_w [1] 2) (length [1::real])"
    by simp
  from forward_tie_break [OF orc et k q s w J] tie
  have "events ?odf ! 0 = 0" by simp
  with orc et q tie show ?thesis by simp
qed

text \<open>
  C7: when the follower list, the explicit one or else the sorted distinct followers of
  the log without the omitted sources, does not have exactly one entry, and so whenever
  the set of its entries is not a singleton, \<open>oracle_ranking\<close> fails with the assertion
  error on the number of followers.
\<close>

theorem oracle_single_follower_only:
  assumes "length (oracle_followers df omit_src_ids follower_ids) \<noteq> 1 \<or>
           card (set (oracle_followers df omit_src_ids follower_ids)) \<noteq> 1"
  shows "oracle_ranking df opts omit_src_ids follower_ids =
           Inl (AssertionError ''Oracle has been implemented only for 1 follower.'')"
proof -
  have "length (oracle_followers df omit_src_ids follower_ids) \<noteq> 1"
  proof
    assume "length (oracle_followers df omit_src_ids follower_ids) = 1"
    moreover from this obtain g where "oracle_followers df omit_src_ids follower_ids = [g]"
      by (cases "oracle_followers df omit_src_ids follower_ids") auto
    ultimately show False using assms by simp
  qed
  then show ?thesis
    by (cases follower_ids; cases omit_src_ids)
       (simp_all add: oracle_ranking_def oracle_followers_def omit_sources_def Let_def)
qed

theorem oracle_single_follower_only_witness:
  "length (oracle_followers scenario None None) \<noteq> 1 \<and>
   oracle_ranking scenario (one_event_opts 1) None None =
     Inl (AssertionError ''Oracle has been implemented only for 1 follower.'') \<and>
   length (oracle_followers one_event_log None (Some [0, 1])) \<noteq> 1 \<and>
   oracle_ranking one_event_log (one_event_opts 1) None (Some [0, 1]) =
     Inl (AssertionError ''Oracle has been implemented only for 1 follower.'')"
proof -
  have a: "length (oracle_followers scenario None None) \<noteq> 1"
    by (simp add: oracle_followers_def omit_sources_def scenario_def)
  have b: "length (oracle_followers one_event_log None (Some [0, 1])) \<noteq> 1"
    by (simp add: oracle_followers_def)
  from oracle_single_follower_only [OF disjI1 [OF a]]
    oracle_single_follower_only [OF disjI1 [OF b]] a b
  show ?thesis by blast
qed

subsection \<open>Metric Aggregator: the utility integral\<close>

lemma length_ffill_rows [simp]: "length (ffill_rows prev rows) = length rows"
  by (induction rows arbitrary: prev) (simp_all add: Let_def)

lemma rank_of_src_in_df_trajectory:
  "is_sorted (Float64 (map t df)) True \<Longrightarrow> rank_of_src_in_df df src True True = Inr (trajectory df src)"
  by (simp add: rank_of_src_in_df_def trajectory_def Let_def)

lemma trajectory_rows: "length (vals (trajectory df src)) = length (index (trajectory df src))"
  by (simp add: trajectory_def ffill_def pivot_table_def Let_def)

lemma trajectory_index: "index (trajectory df src) = sort (remdups (map t df))"
proof -
  have "length (rank_column df src) = length df"
    by (simp add: rank_column_def groupby_transform_def)
  then have "map (t \<circ> fst) (zip df (rank_column df src)) = map t df"
    by (simp add: map_fst_zip flip: map_map)
  then show ?thesis
    by (simp add: trajectory_def ffill_def pivot_table_def Let_def)
qed

lemma map2_nth:
  "map2 f xs ys = map (\<lambda>i. f (xs ! i) (ys ! i)) [0..<min (length xs) (length ys)]"
  by (simp add: list_eq_iff_nth_eq)

lemma fsum_Some: "fsum (map Some xs) = Some (sum_list xs)"
  by (induction xs) (simp_all add: fsum_def fadd_def)

lemma weighted_sum_refines:
  assumes "length rows = length idx"
  shows "map2 fmul (map (\<lambda>row. dot (map (\<lambda>c. row ! pos c) fids) v) rows)
              (map Some (np_diff (idx @ [e])))
           = map (\<lambda>i. fmul (dot (map (\<lambda>c. rows ! i ! pos c) fids) v)
                            (Some ((idx @ [e]) ! Suc i - idx ! i)))
               [0..<length idx]"
  using assms by (simp add: map2_nth nth_np_diff nth_append)

lemma u_int_opt_value:
  assumes "is_sorted (Float64 (map t df)) True" and "is_sorted (Int64 fids) True"
      and "list_all (\<lambda>c. c \<in> set (columns (trajectory df (Some a)))) fids"
      and "length q = length fids"
  shows "u_int_opt df (Some a) (Some end_t) (Some q) (Some s) (Some fids) opts
           = Inr (riemann_sum (trajectory df (Some a)) fids q s end_t)"
proof -
  let ?p = "trajectory df (Some a)"
  have "u_int_opt df (Some a) (Some end_t) (Some q) (Some s) (Some fids) opts =
          Inr (fsum (map2 fmul
                 (map (\<lambda>row. dot (map (\<lambda>c. row ! label_pos (columns ?p) c) fids)
                                 (map (\<lambda>qj. np_sqrt (np_divide qj s)) q)) (vals ?p))
                 (map Some (np_diff (index ?p @ [end_t])))))"
    using assms
    by (cases opts)
       (simp_all add: u_int_opt_def mb_def rank_of_src_in_df_trajectory select_columns_def
          Let_def comp_def)
  also have "\<dots> = Inr (riemann_sum ?p fids q s end_t)"
    unfolding riemann_sum_def
    by (subst weighted_sum_refines [OF trajectory_rows]) simp
  finally show ?thesis .
qed

lemma u_int_opt_errors:
  assumes "is_sorted (Float64 (map t df)) True" and "is_sorted (Int64 fids) True"
  shows "\<not> list_all (\<lambda>c. c \<in> set (columns (trajectory df (Some a)))) fids \<Longrightarrow>
           u_int_opt df (Some a) (Some end_t) (Some q) (Some s) (Some fids) opts = Inl KeyError"
    and "list_all (\<lambda>c. c \<in> set (columns (trajectory df (Some a)))) fids \<Longrightarrow>
         length q \<noteq> length fids \<Longrightarrow>
           u_int_opt df (Some a) (Some end_t) (Some q) (Some s) (Some fids) opts = Inl ValueError"
  using assms
  by (cases opts;
      simp add: u_int_opt_def mb_def rank_of_src_in_df_trajectory select_columns_def Let_def)+

lemma u_int_opt_unsorted:
  "\<not> is_sorted (Int64 fids) True \<Longrightarrow>
     u_int_opt df src end_t q_vec s (Some fids) opts = Inl (AssertionError [])"
  by (cases opts) (simp_all add: u_int_opt_def mb_def Let_def)

lemma riemann_sum_finite:
  assumes "0 < s" and "list_all (\<lambda>x. 0 \<le> x) q" and "length q = length fids"
      and "list_all (\<lambda>row. list_all (\<lambda>c. row ! label_pos (columns r_t) c \<noteq> None) fids) (vals r_t)"
      and "length (vals r_t) = length (index r_t)"
  shows "riemann_sum r_t fids q s end_t = Some (riemann_sum_real r_t fids q s end_t)"
proof -
  let ?v = "map (\<lambda>qj. np_sqrt (np_divide qj s)) q"
  have inner: "dot (map (\<lambda>c. vals r_t ! i ! label_pos (columns r_t) c) fids) ?v
        = Some (sum_list (map (\<lambda>j. the (vals r_t ! i ! label_pos (columns r_t) (fids ! j))
                                      * sqrt (q ! j / s)) [0..<length fids]))"
    if i: "i < length (index r_t)" for i
  proof -
    have cell: "\<exists>x. vals r_t ! i ! label_pos (columns r_t) (fids ! j) = Some x"
      if "j < length fids" for j
      using assms(4,5) i that by (auto simp: list_all_length)
    have w: "np_sqrt (np_divide (q ! j) s) = Some (sqrt (q ! j / s))" if "j < length fids" for j
      using assms(1,2,3) that by (simp add: np_sqrt_def np_divide_def list_all_length not_less)
    have "map2 fmul (map (\<lambda>c. vals r_t ! i ! label_pos (columns r_t) c) fids) ?v
            = map Some (map (\<lambda>j. the (vals r_t ! i ! label_pos (columns r_t) (fids ! j))
                                    * sqrt (q ! j / s)) [0..<length fids])"
    proof (rule nth_equalityI)
      show "length (map2 fmul (map (\<lambda>c. vals r_t ! i ! label_pos (columns r_t) c) fids) ?v)
              = length (map Some (map (\<lambda>j. the (vals r_t ! i ! label_pos (columns r_t) (fids ! j))
                                    * sqrt (q ! j / s)) [0..<length fids]))"
        using assms(3) by simp
    next
      fix j
      assume "j < length (map2 fmul (map (\<lambda>c. vals r_t ! i ! label_pos (columns r_t) c) fids) ?v)"
      then have j: "j < length fids" using assms(3) by simp
      from cell [OF j] obtain x where
        x: "vals r_t ! i ! label_pos (columns r_t) (fids ! j) = Some x" ..
      show "map2 fmul (map (\<lambda>c. vals r_t ! i ! label_pos (columns r_t) c) fids) ?v ! j
              = map Some (map (\<lambda>j. the (vals r_t ! i ! label_pos (columns r_t) (fids ! j))
                                    * sqrt (q ! j / s)) [0..<length fids]) ! j"
        using j assms(3) x w [OF j] by (simp add: fmul_def)
    qed
    then show ?thesis by (simp only: dot_def fsum_Some)
  qed
  have "map (\<lambda>i. fmul (dot (map (\<lambda>c. vals r_t ! i ! label_pos (columns r_t) c) fids) ?v)
                       (Some ((index r_t @ [end_t]) ! Suc i - index r_t ! i)))
          [0..<length (index r_t)]
        = map Some (map (\<lambda>i. sum_list (map (\<lambda>j. the (vals r_t ! i ! label_pos (columns r_t) (fids ! j))
                                             * sqrt (q ! j / s)) [0..<length fids])
                              * ((index r_t @ [end_t]) ! Suc i - index r_t ! i))
                     [0..<length (index r_t)])"
    by (simp add: inner fmul_def)
  then show ?thesis
    unfolding riemann_sum_def riemann_sum_real_def by (simp only: fsum_Some)
qed

text \<open>
  What \<open>u_int_opt\<close> computes with an explicit follower list: for a log sorted by time the
  Rank Tracker returns the trajectory, whose rows are the
  distinct timestamps of the log in ascending order, and for a sorted
  list of follower ids that are columns of the trajectory, with one weight per follower,
  \<open>u_int_opt\<close> returns the Riemann sum: over the rows of the trajectory, the row restricted
  to the follower ids dotted with \<open>sqrt(q_vec / s)\<close>, times the time to the next row, and to
  \<open>end_time\<close> for the last row. For \<open>s > 0\<close>, weights that are not negative and a trajectory
  without NaN in the selected columns that is the sum in the reals. A follower id that is
  no column raises \<open>KeyError\<close>, a weight vector of another length \<open>ValueError\<close>. A follower
  list that \<open>is_sorted\<close> rejects fails the assertion, whatever the other arguments are.
\<close>

lemma utility_integral_riemann_sum:
  assumes "is_sorted (Float64 (map t df)) True"
  shows "rank_of_src_in_df df (Some a) True True = Inr (trajectory df (Some a)) \<and>
         index (trajectory df (Some a)) = sort (remdups (map t df)) \<and>
         (is_sorted (Int64 fids) True \<longrightarrow>
            u_int_opt df (Some a) (Some end_t) (Some q) (Some s) (Some fids) opts =
              (if \<not> list_all (\<lambda>c. c \<in> set (columns (trajectory df (Some a)))) fids
               then Inl KeyError
               else if length q \<noteq> length fids then Inl ValueError
               else Inr (riemann_sum (trajectory df (Some a)) fids q s end_t))) \<and>
         (0 < s \<and> list_all (\<lambda>x. 0 \<le> x) q \<and> length q = length fids \<and>
          list_all (\<lambda>row. list_all (\<lambda>c. row ! label_pos (columns (trajectory df (Some a))) c \<noteq> None)
                      fids) (vals (trajectory df (Some a))) \<longrightarrow>
            riemann_sum (trajectory df (Some a)) fids q s end_t =
              Some (riemann_sum_real (trajectory df (Some a)) fids q s end_t)) \<and>
         (\<not> is_sorted (Int64 fids) True \<longrightarrow>
            u_int_opt df src' end_t' q' s' (Some fids) opts = Inl (AssertionError []))"
proof -
  have 1: "rank_of_src_in_df df (Some a) True True = Inr (trajectory df (Some a))"
    using assms by (rule rank_of_src_in_df_trajectory)
  have 2: "is_sorted (Int64 fids) True \<longrightarrow>
            u_int_opt df (Some a) (Some end_t) (Some q) (Some s) (Some fids) opts =
              (if \<not> list_all (\<lambda>c. c \<in> set (columns (trajectory df (Some a)))) fids
               then Inl KeyError
               else if length q \<noteq> length fids then Inl ValueError
               else Inr (riemann_sum (trajectory df (Some a)) fids q s end_t))"
    using u_int_opt_value [OF assms] u_int_opt_errors [OF assms] by auto
  have 3: "0 < s \<and> list_all (\<lambda>x. 0 \<le> x) q \<and> length q = length fids \<and>
          list_all (\<lambda>row. list_all (\<lambda>c. row ! label_pos (columns (trajectory df (Some a))) c \<noteq> None)
                      fids) (vals (trajectory df (Some a))) \<longrightarrow>
            riemann_sum (trajectory df (Some a)) fids q s end_t =
              Some (riemann_sum_real (trajectory df (Some a)) fids q s end_t)"
    using riemann_sum_finite [OF _ _ _ _ trajectory_rows] by blast
  have 4: "\<not> is_sorted (Int64 fids) True \<longrightarrow>
            u_int_opt df src' end_t' q' s' (Some fids) opts = Inl (AssertionError [])"
    by (simp add: u_int_opt_unsorted)
  have 5: "index (trajectory df (Some a)) = sort (remdups (map t df))"
    by (simp add: trajectory_index)
  from 1 2 3 4 5 show ?thesis by blast
qed

lemma competitor_only_trajectory:
  "trajectory competitor_only_log (Some 0) =
     \<lparr>index = [0, 1, 3], columns = [1, 2],
      vals = [[Some 0, None], [Some 1, Some 1], [Some 2, Some 1]]\<rparr>"
  by (simp add: trajectory_def competitor_only_log_def pivot_table_def ffill_def mean_def
      rank_column_def groupby_transform_def stream_def steps_to_def marks_def maximum_accumulate_def
      upt_rec upto.simps Let_def)

lemma competitor_only_sorted: "is_sorted (Float64 (map t competitor_only_log)) True"
  by (simp add: competitor_only_log_def is_sorted_def)

text \<open>
  C6 fails on the code for follower ids whose difference wraps around in 64 bits: the list
  \<open>[2\<^sup>6\<^sup>3 - 1, -2\<^sup>6\<^sup>3]\<close> is not ascending, yet it passes the assertion, and \<open>u_int_opt\<close>
  returns the value 1 for it; the ascending list \<open>[-2\<^sup>6\<^sup>3, 2\<^sup>6\<^sup>3 - 1]\<close> fails the assertion.
\<close>

theorem unsorted_followers_accepted:
  "\<not> sorted [2 ^ 63 - 1, - (2 ^ 63) :: int] \<and>
   u_int_opt far_followers_log (Some 0) (Some 1) (Some [1, 0]) (Some 1)
     (Some [2 ^ 63 - 1, - (2 ^ 63)]) None = Inr (Some 1) \<and>
   sorted [- (2 ^ 63), 2 ^ 63 - 1 :: int] \<and>
   u_int_opt far_followers_log (Some 0) (Some 1) (Some [0, 1]) (Some 1)
     (Some [- (2 ^ 63), 2 ^ 63 - 1]) None = Inl (AssertionError [])"
  by (simp add: u_int_opt_def far_followers_log_def is_sorted_def wrap64_def
      rank_of_src_in_df_def pivot_table_def ffill_def mean_def rank_column_def
      groupby_transform_def stream_def steps_to_def marks_def maximum_accumulate_def upt_rec
      upto.simps Let_def select_columns_def label_pos_def dot_def fsum_def fmul_def fadd_def
      np_sqrt_def np_divide_def)

lemma default_followers_columns:
  "list_all (\<lambda>c. c \<in> set (columns (trajectory df src))) (default_followers df src)"
proof -
  have "map (sink_id \<circ> fst) (zip df (rank_column df src)) = map sink_id df"
    by (simp add: map_fst_zip flip: map_map)
  then have "set (columns (trajectory df src)) = sink_id ` set df"
    by (simp add: trajectory_def ffill_def pivot_table_def Let_def)
  then show ?thesis
    by (auto simp: list_all_iff default_followers_def)
qed

lemma u_int_opt_default:
  assumes "is_sorted (Float64 (map t df)) True"
  shows "u_int_opt df src (Some end_t) (Some q) (Some s) None None =
           (if length q \<noteq> length (default_followers df src) then Inl ValueError
            else Inr (riemann_sum (trajectory df src) (default_followers df src) q s end_t))"
proof -
  let ?p = "trajectory df src"
  let ?f = "default_followers df src"
  have "u_int_opt df src (Some end_t) (Some q) (Some s) None None =
          (if length q \<noteq> length ?f then Inl ValueError
           else Inr (fsum (map2 fmul
                 (map (\<lambda>row. dot (map (\<lambda>c. row ! label_pos (columns ?p) c) ?f)
                                 (map (\<lambda>qj. np_sqrt (np_divide qj s)) q)) (vals ?p))
                 (map Some (np_diff (index ?p @ [end_t]))))))"
    using assms default_followers_columns [of df src]
    by (simp add: u_int_opt_def rank_of_src_in_df_trajectory select_columns_def Let_def comp_def)
  also have "\<dots> = (if length q \<noteq> length ?f then Inl ValueError
                     else Inr (riemann_sum ?p ?f q s end_t))"
    unfolding riemann_sum_def
    by (subst weighted_sum_refines [OF trajectory_rows]) simp
  finally show ?thesis .
qed

text \<open>
  C10: called without a follower list and without \<open>sim_opts\<close> on a log sorted by time,
  \<open>u_int_opt\<close> returns the Riemann sum of the trajectory over the columns
  \<open>default_followers\<close> (and \<open>ValueError\<close> when \<open>q_vec\<close> has not one weight for each of them).
  That list is ascending and without duplicates, and its entries are exactly the followers
  that received a post of the source itself; a follower none of whose events is a post of
  the source is no entry.
\<close>

theorem default_followers_received_source:
  assumes "is_sorted (Float64 (map t df)) True"
  shows "u_int_opt df src (Some end_t) (Some q) (Some s) None None =
           (if length q \<noteq> length (default_followers df src) then Inl ValueError
            else Inr (riemann_sum (trajectory df src) (default_followers df src) q s end_t)) \<and>
         sorted (default_followers df src) \<and> distinct (default_followers df src) \<and>
         set (default_followers df src) =
           {g. \<exists>e\<in>set df. sink_id e = g \<and> Some (src_id e) = src} \<and>
         ((\<forall>e\<in>set df. sink_id e = g \<longrightarrow> Some (src_id e) \<noteq> src) \<longrightarrow>
            g \<notin> set (default_followers df src))"
proof -
  have 1: "u_int_opt df src (Some end_t) (Some q) (Some s) None None =
           (if length q \<noteq> length (default_followers df src) then Inl ValueError
            else Inr (riemann_sum (trajectory df src) (default_followers df src) q s end_t))"
    using assms by (rule u_int_opt_default)
  have 2: "sorted (default_followers df src) \<and> distinct (default_followers df src)"
    by (simp add: default_followers_def)
  have 3: "set (default_followers df src) =
             {g. \<exists>e\<in>set df. sink_id e = g \<and> Some (src_id e) = src}"
    by (auto simp: default_followers_def)
  from 1 2 3 show ?thesis by blast
qed

lemma competitor_only_follower_1:
  "riemann_sum (trajectory competitor_only_log (Some 0)) [1] [4] 1 4 = Some 8"
  by (simp add: riemann_sum_def competitor_only_trajectory label_pos_def upt_rec dot_def
      fsum_def fmul_def fadd_def np_sqrt_def np_divide_def)

theorem default_followers_received_source_witness:
  "is_sorted (Float64 (map t competitor_only_log)) True \<and>
   default_followers competitor_only_log (Some 0) = [1] \<and>
   2 \<in> sink_id ` set competitor_only_log \<and>
   map src_id (stream competitor_only_log 2) = [1] \<and>
   2 \<notin> set (default_followers competitor_only_log (Some 0)) \<and>
   riemann_sum (trajectory competitor_only_log (Some 0)) [1] [4] 1 4 = Some 8 \<and>
   riemann_sum (trajectory competitor_only_log (Some 0)) [1, 2] [4, 4] 1 4 = None \<and>
   u_int_opt competitor_only_log (Some 0) (Some 4) (Some [4]) (Some 1) None None = Inr (Some 8)"
proof -
  have a: "default_followers competitor_only_log (Some 0) = [1]"
    by (simp add: default_followers_def competitor_only_log_def)
  have b: "2 \<in> sink_id ` set competitor_only_log"
    by (simp add: competitor_only_log_def)
  have c: "\<forall>e\<in>set competitor_only_log. sink_id e = 2 \<longrightarrow> Some (src_id e) \<noteq> Some 0"
    by (simp add: competitor_only_log_def)
  have f: "map src_id (stream competitor_only_log 2) = [1]"
    by (simp add: competitor_only_log_def stream_def)
  have g: "riemann_sum (trajectory competitor_only_log (Some 0)) [1, 2] [4, 4] 1 4 = None"
    by (simp add: riemann_sum_def competitor_only_trajectory label_pos_def upt_rec dot_def
        fsum_def fmul_def fadd_def np_sqrt_def np_divide_def)
  note inst = default_followers_received_source
                [OF competitor_only_sorted, of "Some 0" 4 "[4]" 1 2]
  from inst c have d: "2 \<notin> set (default_followers competitor_only_log (Some 0))"
    by blast
  from inst have e: "u_int_opt competitor_only_log (Some 0) (Some 4) (Some [4]) (Some 1) None None
      = Inr (riemann_sum (trajectory competitor_only_log (Some 0)) [1] [4] 1 4)"
    by (simp add: a)
  from competitor_only_sorted a b d e f g competitor_only_follower_1 show ?thesis by simp
qed

subsection \<open>Calibration Loop\<close>

lemma bisect_step_Return:
  "bisect_step wall opts target_events tol s_lo s_hi = Return c \<Longrightarrow>
     stop_condition (sum_list (events (cal_df c))) target_events tol \<and>
     cal_s c = (s_lo + s_hi) / 2 \<and>
     get_oracle_df wall (opts\<lparr>opt_s := cal_s c\<rparr>) = Inr (cal_df c, cal_cost c)"
  by (auto simp: bisect_step_def Let_def split: sum.splits prod.splits if_splits)

lemma not_stopped_not_equal:
  "\<not> stop_condition opt_events target_events tol \<Longrightarrow> real opt_events \<noteq> target_events"
proof
  assume ns: "\<not> stop_condition opt_events target_events tol"
    and eq: "real opt_events = target_events"
  have "\<lceil>real opt_events\<rceil> = int opt_events" by simp
  then have "real opt_events = of_int \<lceil>real opt_events\<rceil>" by simp
  with eq have "real opt_events = of_int \<lceil>target_events\<rceil>" by simp
  with ns show False by (simp add: stop_condition_def)
qed

lemma bisect_step_Continue:
  assumes "bisect_step wall opts target_events tol s_lo s_hi = Continue lo hi"
  shows "\<exists>odf cost.
           get_oracle_df wall (opts\<lparr>opt_s := (s_lo + s_hi) / 2\<rparr>) = Inr (odf, cost) \<and>
           \<not> stop_condition (sum_list (events odf)) target_events tol \<and>
           (if real (sum_list (events odf)) < target_events
            then lo = s_lo \<and> hi = (s_lo + s_hi) / 2
            else target_events < real (sum_list (events odf)) \<and>
                 lo = (s_lo + s_hi) / 2 \<and> hi = s_hi)"
proof -
  from assms obtain odf cost where
    g: "get_oracle_df wall (opts\<lparr>opt_s := (s_lo + s_hi) / 2\<rparr>) = Inr (odf, cost)"
    by (auto simp: bisect_step_def Let_def split: sum.splits prod.splits if_splits)
  with assms have ns: "\<not> stop_condition (sum_list (events odf)) target_events tol"
    by (auto simp: bisect_step_def Let_def split: if_splits)
  from not_stopped_not_equal [OF ns] have ne: "real (sum_list (events odf)) \<noteq> target_events" .
  from assms g ns ne
  have "if real (sum_list (events odf)) < target_events
        then lo = s_lo \<and> hi = (s_lo + s_hi) / 2
        else target_events < real (sum_list (events odf)) \<and>
             lo = (s_lo + s_hi) / 2 \<and> hi = s_hi"
    by (auto simp: bisect_step_def Let_def split: if_splits)
  with g ns show ?thesis by blast
qed

lemma bisect_returns:
  assumes "bisect wall opts target_events tol s_lo s_hi = Some r"
  shows "\<forall>c. r = Inr c \<longrightarrow>
     stop_condition (sum_list (events (cal_df c))) target_events tol \<and>
     get_oracle_df wall (opts\<lparr>opt_s := cal_s c\<rparr>) = Inr (cal_df c, cal_cost c)"
proof (rule bisect.raw_induct
    [where P = "\<lambda>wall opts target_events tol s_lo s_hi r. \<forall>c. r = Inr c \<longrightarrow>
       stop_condition (sum_list (events (cal_df c))) target_events tol \<and>
       get_oracle_df wall (opts\<lparr>opt_s := cal_s c\<rparr>) = Inr (cal_df c, cal_cost c)",
     OF _ assms])
  fix f wall opts target_events tol s_lo s_hi r
  assume IH: "\<And>wall opts target_events tol s_lo s_hi r.
      f wall opts target_events tol s_lo s_hi = Some r \<Longrightarrow>
      \<forall>c. r = Inr c \<longrightarrow>
        stop_condition (sum_list (events (cal_df c))) target_events tol \<and>
        get_oracle_df wall (opts\<lparr>opt_s := cal_s c\<rparr>) = Inr (cal_df c, cal_cost c)"
    and eq: "(case bisect_step wall opts target_events tol s_lo s_hi of
                Return c \<Rightarrow> Some (Inr c)
              | Raise e \<Rightarrow> Some (Inl e)
              | Continue lo hi \<Rightarrow> f wall opts target_events tol lo hi) = Some r"
  show "\<forall>c. r = Inr c \<longrightarrow>
        stop_condition (sum_list (events (cal_df c))) target_events tol \<and>
        get_oracle_df wall (opts\<lparr>opt_s := cal_s c\<rparr>) = Inr (cal_df c, cal_cost c)"
  proof (cases "bisect_step wall opts target_events tol s_lo s_hi")
    case (Return c')
    with eq have "r = Inr c'" by simp
    with bisect_step_Return [OF Return] show ?thesis by simp
  next
    case (Raise e)
    with eq show ?thesis by auto
  next
    case (Continue lo hi)
    with eq have "f wall opts target_events tol lo hi = Some r" by simp
    from IH [OF this] show ?thesis .
  qed
qed

lemma narrows_step:
  "narrows wall opts target_events tol (lo, hi) (lo', hi') =
     (bisect_step wall opts target_events tol lo hi = Continue lo' hi')"
proof
  assume n: "narrows wall opts target_events tol (lo, hi) (lo', hi')"
  then obtain odf cost where
    g: "get_oracle_df wall (opts\<lparr>opt_s := (lo + hi) / 2\<rparr>) = Inr (odf, cost)"
    by (auto simp: narrows_def split: sum.splits prod.splits)
  with n have ns: "\<not> stop_condition (sum_list (events odf)) target_events tol"
    and b: "if real (sum_list (events odf)) < target_events
            then lo' = lo \<and> hi' = (lo + hi) / 2
            else lo' = (lo + hi) / 2 \<and> hi' = hi"
    by (auto simp: narrows_def split: if_splits)
  from g ns b show "bisect_step wall opts target_events tol lo hi = Continue lo' hi'"
    by (auto simp: bisect_step_def Let_def split: if_splits)
next
  assume "bisect_step wall opts target_events tol lo hi = Continue lo' hi'"
  from bisect_step_Continue [OF this]
  show "narrows wall opts target_events tol (lo, hi) (lo', hi')"
    by (auto simp: narrows_def split: if_splits)
qed

lemma returns_step:
  "returns_at wall opts target_events tol (lo, hi) c =
     (bisect_step wall opts target_events tol lo hi = Return c)"
proof
  assume r: "returns_at wall opts target_events tol (lo, hi) c"
  then have s: "cal_s c = (lo + hi) / 2"
    unfolding returns_at_def by simp
  from r have "get_oracle_df wall (opts\<lparr>opt_s := cal_s c\<rparr>) = Inr (cal_df c, cal_cost c)"
    unfolding returns_at_def by blast
  then have g: "get_oracle_df wall (opts\<lparr>opt_s := (lo + hi) / 2\<rparr>) = Inr (cal_df c, cal_cost c)"
    unfolding s .
  from r have st: "stop_condition (sum_list (events (cal_df c))) target_events tol"
    unfolding returns_at_def stop_condition_def by simp
  have "bisect_step wall opts target_events tol lo hi =
          Return \<lparr>cal_s = (lo + hi) / 2, cal_cost = cal_cost c, cal_df = cal_df c\<rparr>"
    using g st by (simp add: bisect_step_def Let_def)
  also have "\<lparr>cal_s = (lo + hi) / 2, cal_cost = cal_cost c, cal_df = cal_df c\<rparr> = c"
    using s by simp
  finally show "bisect_step wall opts target_events tol lo hi = Return c" .
next
  assume "bisect_step wall opts target_events tol lo hi = Return c"
  from bisect_step_Return [OF this]
  show "returns_at wall opts target_events tol (lo, hi) c"
    by (simp add: returns_at_def stop_condition_def)
qed

lemma bisect_follows_course:
  "bs \<noteq> [] \<Longrightarrow> narrowing wall opts target_events tol bs \<Longrightarrow>
     returns_at wall opts target_events tol (last bs) c \<Longrightarrow>
     bisect wall opts target_events tol (fst (hd bs)) (snd (hd bs)) = Some (Inr c)"
proof (induction bs rule: induct_list012)
  case 1
  then show ?case by simp
next
  case (2 b)
  obtain lo hi where b: "b = (lo, hi)" by (cases b) auto
  with 2 have "bisect_step wall opts target_events tol lo hi = Return c"
    by (simp add: returns_step)
  with b show ?case by (subst bisect.simps) simp
next
  case (3 b b' bs)
  obtain lo hi lo' hi' where b: "b = (lo, hi)" and b': "b' = (lo', hi')"
    by (cases b, cases b') auto
  from 3(4) b b'
  have st: "bisect_step wall opts target_events tol lo hi = Continue lo' hi'"
    by (simp add: narrows_step)
  from 3(2) 3(4,5) have "bisect wall opts target_events tol lo' hi' = Some (Inr c)"
    using b' by simp
  with st b show ?case by (subst bisect.simps) simp
qed

lemma bisect_has_course:
  assumes "bisect wall opts target_events tol lo hi = Some r"
  shows "\<forall>c. r = Inr c \<longrightarrow>
           (\<exists>bs. bs \<noteq> [] \<and> hd bs = (lo, hi) \<and> narrowing wall opts target_events tol bs \<and>
                 returns_at wall opts target_events tol (last bs) c)"
proof (rule bisect.raw_induct
    [where P = "\<lambda>wall opts target_events tol lo hi r. \<forall>c. r = Inr c \<longrightarrow>
       (\<exists>bs. bs \<noteq> [] \<and> hd bs = (lo, hi) \<and> narrowing wall opts target_events tol bs \<and>
             returns_at wall opts target_events tol (last bs) c)",
     OF _ assms])
  fix f wall opts target_events tol lo hi r
  assume IH: "\<And>wall opts target_events tol lo hi r.
      f wall opts target_events tol lo hi = Some r \<Longrightarrow>
      \<forall>c. r = Inr c \<longrightarrow>
        (\<exists>bs. bs \<noteq> [] \<and> hd bs = (lo, hi) \<and> narrowing wall opts target_events tol bs \<and>
              returns_at wall opts target_events tol (last bs) c)"
    and eq: "(case bisect_step wall opts target_events tol lo hi of
                Return c \<Rightarrow> Some (Inr c)
              | Raise e \<Rightarrow> Some (Inl e)
              | Continue lo' hi' \<Rightarrow> f wall opts target_events tol lo' hi') = Some r"
  show "\<forall>c. r = Inr c \<longrightarrow>
        (\<exists>bs. bs \<noteq> [] \<and> hd bs = (lo, hi) \<and> narrowing wall opts target_events tol bs \<and>
              returns_at wall opts target_events tol (last bs) c)"
  proof (cases "bisect_step wall opts target_events tol lo hi")
    case (Return c')
    with eq have r: "r = Inr c'" by simp
    from Return have "returns_at wall opts target_events tol (lo, hi) c'"
      by (simp add: returns_step)
    then have "[(lo, hi)] \<noteq> [] \<and> hd [(lo, hi)] = (lo, hi) \<and>
               narrowing wall opts target_events tol [(lo, hi)] \<and>
               returns_at wall opts target_events tol (last [(lo, hi)]) c'"
      by simp
    with r show ?thesis by blast
  next
    case (Raise e)
    with eq show ?thesis by auto
  next
    case (Continue lo' hi')
    with eq have "f wall opts target_events tol lo' hi' = Some r" by simp
    from IH [OF this] have course: "\<forall>c. r = Inr c \<longrightarrow>
        (\<exists>bs. bs \<noteq> [] \<and> hd bs = (lo', hi') \<and> narrowing wall opts target_events tol bs \<and>
              returns_at wall opts target_events tol (last bs) c)" .
    from Continue have n: "narrows wall opts target_events tol (lo, hi) (lo', hi')"
      by (simp add: narrows_step)
    show ?thesis
    proof (intro allI impI)
      fix c assume "r = Inr c"
      with course obtain bs where bs: "bs \<noteq> []" "hd bs = (lo', hi')"
        "narrowing wall opts target_events tol bs"
        "returns_at wall opts target_events tol (last bs) c" by blast
      from bs(1,2) obtain rest where rest: "bs = (lo', hi') # rest" by (cases bs) auto
      have "(lo, hi) # bs \<noteq> [] \<and> hd ((lo, hi) # bs) = (lo, hi) \<and>
            narrowing wall opts target_events tol ((lo, hi) # bs) \<and>
            returns_at wall opts target_events tol (last ((lo, hi) # bs)) c"
        using bs n by (simp add: rest)
      then show "\<exists>bs. bs \<noteq> [] \<and> hd bs = (lo, hi) \<and>
                   narrowing wall opts target_events tol bs \<and>
                   returns_at wall opts target_events tol (last bs) c" by blast
    qed
  qed
qed

text \<open>
  C8: \<open>find_opt_oracle\<close> returns the result \<open>c\<close> exactly when there is a course of brackets
  that starts with the bracket of the first phase, in which every iteration that does not
  stop narrows the bracket to the next one, by setting \<open>s_hi\<close> to the midpoint when the
  event count of the run at the midpoint is below the target and \<open>s_lo\<close> to the midpoint
  when it is above, and whose last iteration returns \<open>c\<close>: the oracle run at the last
  midpoint, whose event count meets the stopping condition (relative error to the target
  below the tolerance, or equal to the ceiling of the target, or to its floor).
\<close>

theorem find_opt_oracle_narrows_until_target:
  "find_opt_oracle wall target_events opts tol = Some (Inr c) \<longleftrightarrow>
     (\<exists>bs. bs \<noteq> [] \<and> bracketing wall target_events opts = Some (Inr (hd bs)) \<and>
           narrowing wall opts target_events tol bs \<and>
           returns_at wall opts target_events tol (last bs) c)"
proof
  assume "find_opt_oracle wall target_events opts tol = Some (Inr c)"
  then obtain lo hi where br: "bracketing wall target_events opts = Some (Inr (lo, hi))"
    and bi: "bisect wall opts target_events tol lo hi = Some (Inr c)"
    by (auto simp: find_opt_oracle_def split: option.splits sum.splits prod.splits)
  from bisect_has_course [OF bi] obtain bs where
    "bs \<noteq> []" "hd bs = (lo, hi)" "narrowing wall opts target_events tol bs"
    "returns_at wall opts target_events tol (last bs) c" by blast
  with br show "\<exists>bs. bs \<noteq> [] \<and> bracketing wall target_events opts = Some (Inr (hd bs)) \<and>
           narrowing wall opts target_events tol bs \<and>
           returns_at wall opts target_events tol (last bs) c" by auto
next
  assume "\<exists>bs. bs \<noteq> [] \<and> bracketing wall target_events opts = Some (Inr (hd bs)) \<and>
           narrowing wall opts target_events tol bs \<and>
           returns_at wall opts target_events tol (last bs) c"
  then obtain bs where bs: "bs \<noteq> []"
    and br: "bracketing wall target_events opts = Some (Inr (hd bs))"
    and n: "narrowing wall opts target_events tol bs"
    and r: "returns_at wall opts target_events tol (last bs) c" by blast
  from bisect_follows_course [OF bs n r]
  have "bisect wall opts target_events tol (fst (hd bs)) (snd (hd bs)) = Some (Inr c)" .
  with br show "find_opt_oracle wall target_events opts tol = Some (Inr c)"
    by (auto simp: find_opt_oracle_def split: prod.splits)
qed

lemmas two_event_eval =
  get_oracle_df_def oracle_ranking_def two_event_wall_def two_event_opts_def is_sorted_def
  event_times_def solve_oracle_def oracle_w_def oracle_J_def J_init_def set_cell_def bellman_def
  forward_def forward_step_def post_cost_def wait_cost_def upt_rec power2_eq_square Let_def

lemma two_event_counts:
  "oracle_num_events two_event_wall two_event_opts 1 = Inr 2"
  "oracle_num_events two_event_wall two_event_opts 2 = Inr 2"
  "oracle_num_events two_event_wall two_event_opts 4 = Inr 2"
  "oracle_num_events two_event_wall two_event_opts 8 = Inr 2"
  "oracle_num_events two_event_wall two_event_opts 16 = Inr 0"
  by (simp_all add: oracle_num_events_def two_event_eval)

lemma two_event_run_12:
  "get_oracle_df two_event_wall (two_event_opts\<lparr>opt_s := 12\<rparr>) =
     Inr (\<lparr>ranks = [0, 0, 0], events = [1, 1, 0], at_col = [0, 7, 9], t_col = [0, 7, 9],
           t_delta = [7, 2, 1]\<rparr>, 27 / 2)"
  by (simp add: two_event_eval)

lemma two_event_run_14:
  "get_oracle_df two_event_wall (two_event_opts\<lparr>opt_s := 14\<rparr>) =
     Inr (\<lparr>ranks = [0, 1, 2], events = [0, 0, 0], at_col = [0, 7, 9], t_col = [0, 7, 9],
           t_delta = [7, 2, 1]\<rparr>, 15)"
  by (simp add: two_event_eval)

lemma two_event_run_13:
  "get_oracle_df two_event_wall (two_event_opts\<lparr>opt_s := 13\<rparr>) =
     Inr (\<lparr>ranks = [0, 0, 1], events = [1, 0, 0], at_col = [0, 7, 9], t_col = [0, 7, 9],
           t_delta = [7, 2, 1]\<rparr>, 29 / 2)"
  by (simp add: two_event_eval)

lemma two_event_bracket: "bracketing two_event_wall 1 two_event_opts = Some (Inr (8, 16))"
proof -
  have 8: "bracket_up two_event_wall two_event_opts 1 8 = Some (Inr (8, 16))"
    by (subst bracket_up.simps) (simp add: two_event_counts)
  have 4: "bracket_up two_event_wall two_event_opts 1 4 = Some (Inr (8, 16))"
    by (subst bracket_up.simps) (simp add: two_event_counts 8)
  have 2: "bracket_up two_event_wall two_event_opts 1 2 = Some (Inr (8, 16))"
    by (subst bracket_up.simps) (simp add: two_event_counts 4)
  have 1: "bracket_up two_event_wall two_event_opts 1 1 = Some (Inr (8, 16))"
    by (subst bracket_up.simps) (simp add: two_event_counts 2)
  show ?thesis by (simp add: bracketing_def two_event_counts 1)
qed

lemma two_event_steps:
  "bisect_step two_event_wall two_event_opts 1 (1 / 100) 8 16 = Continue 12 16"
  "bisect_step two_event_wall two_event_opts 1 (1 / 100) 12 16 = Continue 12 14"
  "bisect_step two_event_wall two_event_opts 1 (1 / 100) 12 14 =
     Return \<lparr>cal_s = 13, cal_cost = 29 / 2,
             cal_df = \<lparr>ranks = [0, 0, 1], events = [1, 0, 0], at_col = [0, 7, 9],
                       t_col = [0, 7, 9], t_delta = [7, 2, 1]\<rparr>\<rparr>"
  by (simp_all add: bisect_step_def two_event_run_12 two_event_run_14 two_event_run_13
      stop_condition_def Let_def)

theorem find_opt_oracle_narrows_until_target_witness:
  "bracketing two_event_wall 1 two_event_opts = Some (Inr (8, 16)) \<and>
   bisect_step two_event_wall two_event_opts 1 (1 / 100) 8 16 = Continue 12 16 \<and>
   bisect_step two_event_wall two_event_opts 1 (1 / 100) 12 16 = Continue 12 14 \<and>
   bisect_step two_event_wall two_event_opts 1 (1 / 100) 12 14 =
     Return \<lparr>cal_s = 13, cal_cost = 29 / 2,
             cal_df = \<lparr>ranks = [0, 0, 1], events = [1, 0, 0], at_col = [0, 7, 9],
                       t_col = [0, 7, 9], t_delta = [7, 2, 1]\<rparr>\<rparr> \<and>
   find_opt_oracle two_event_wall 1 two_event_opts (1 / 100) =
     Some (Inr \<lparr>cal_s = 13, cal_cost = 29 / 2,
                cal_df = \<lparr>ranks = [0, 0, 1], events = [1, 0, 0], at_col = [0, 7, 9],
                          t_col = [0, 7, 9], t_delta = [7, 2, 1]\<rparr>\<rparr>)"
proof -
  let ?c = "\<lparr>cal_s = 13, cal_cost = 29 / 2,
             cal_df = \<lparr>ranks = [0, 0, 1], events = [1, 0, 0], at_col = [0, 7, 9],
                       t_col = [0, 7, 9], t_delta = [7, 2, 1]\<rparr>\<rparr>"
  let ?bs = "[(8, 16), (12, 16), (12, 14 :: real)] :: (real \<times> real) list"
  have n: "narrowing two_event_wall two_event_opts 1 (1 / 100) ?bs"
    by (simp add: narrows_step two_event_steps)
  have r: "returns_at two_event_wall two_event_opts 1 (1 / 100) (last ?bs) ?c"
    by (simp add: returns_step two_event_steps)
  have "\<exists>bs. bs \<noteq> [] \<and> bracketing two_event_wall 1 two_event_opts = Some (Inr (hd bs)) \<and>
          narrowing two_event_wall two_event_opts 1 (1 / 100) bs \<and>
          returns_at two_event_wall two_event_opts 1 (1 / 100) (last bs) ?c"
    using n r two_event_bracket by (intro exI [of _ ?bs]) simp
  with find_opt_oracle_narrows_until_target [of two_event_wall 1 two_event_opts "1 / 100" ?c]
  have "find_opt_oracle two_event_wall 1 two_event_opts (1 / 100) = Some (Inr ?c)" by blast
  with two_event_bracket two_event_steps show ?thesis by simp
qed

end
